theory Spec2Isabelle
  imports Main "HOL-Library.Word"
begin

section \<open>Common data\<close>

text \<open>
  Go's \<open>byte\<close> is an 8-bit word and a \<open>[]byte\<close> (or the unread part of a
  \<open>bytes.Buffer\<close>) is a list of bytes. \<open>uint64\<close>, \<open>uint32\<close>, \<open>uint16\<close> and
  \<open>uint8\<close> are words of that width, so that conversions truncate as in Go.
\<close>

type_synonym byte = "8 word"
type_synonym bytes = "byte list"
type_synonym u8 = "8 word"
type_synonym u16 = "16 word"
type_synonym u32 = "32 word"
type_synonym u64 = "64 word"

text \<open>
  A Go \<open>error\<close> value is represented by its message, \<open>nil\<close> by \<open>None\<close> or by
  the right side of a sum. A panic is a result of its own.
\<close>

type_synonym go_error = string

datatype go_panic = MakesliceLenOutOfRange | IndexOutOfRange | TypeAssertion | ErrorPanic

section \<open>CompactSize integers (package encoding, varint)\<close>

datatype enc_error = EOF | UnexpectedEOF | NonCanonical

text \<open>
  Modelled from the spec: the fixed-width readers and writers of package \<open>encoding\<close>
  (\<open>ReadUint8\<close>, \<open>ReadUint16LE\<close>, \<open>ReadUint32LE\<close>, \<open>ReadUint64LE\<close> and the
  matching writers) are not among the sources. The spec fixes them as little-endian
  ("Uint8/Uint16/Uint32/Uint64 in little-endian"); a reader fails when the buffer holds
  fewer bytes than the width, a writer appends to the in-memory buffer.
\<close>

fun leDecode :: "bytes \<Rightarrow> 'a::len word" where
  "leDecode [] = 0"
| "leDecode (b # bs) = or (ucast b) (push_bit 8 (leDecode bs))"

fun leEncode :: "nat \<Rightarrow> 'a::len word \<Rightarrow> bytes" where
  "leEncode 0 v = []"
| "leEncode (Suc n) v = ucast v # leEncode n (drop_bit 8 v)"

definition readLE :: "nat \<Rightarrow> bytes \<Rightarrow> enc_error + ('a::len word \<times> bytes)" where
  "readLE n r =
     (if r = [] then Inl EOF
      else if length r < n then Inl UnexpectedEOF
      else Inr (leDecode (take n r), drop n r))"

definition ReadUint8 :: "bytes \<Rightarrow> enc_error + (u8 \<times> bytes)" where
  "ReadUint8 r = readLE 1 r"

definition ReadUint16LE :: "bytes \<Rightarrow> enc_error + (u16 \<times> bytes)" where
  "ReadUint16LE r = readLE 2 r"

definition ReadUint32LE :: "bytes \<Rightarrow> enc_error + (u32 \<times> bytes)" where
  "ReadUint32LE r = readLE 4 r"

definition ReadUint64LE :: "bytes \<Rightarrow> enc_error + (u64 \<times> bytes)" where
  "ReadUint64LE r = readLE 8 r"

definition WriteUint8 :: "bytes \<Rightarrow> u8 \<Rightarrow> enc_error + bytes" where
  "WriteUint8 w v = Inr (w @ leEncode 1 v)"

definition WriteUint16LE :: "bytes \<Rightarrow> u16 \<Rightarrow> enc_error + bytes" where
  "WriteUint16LE w v = Inr (w @ leEncode 2 v)"

definition WriteUint32LE :: "bytes \<Rightarrow> u32 \<Rightarrow> enc_error + bytes" where
  "WriteUint32LE w v = Inr (w @ leEncode 4 v)"

definition WriteUint64LE :: "bytes \<Rightarrow> u64 \<Rightarrow> enc_error + bytes" where
  "WriteUint64LE w v = Inr (w @ leEncode 8 v)"

text \<open>
  \<open>ReadVarInt\<close>: the discriminant byte selects the width; each wide form is refused
  when its value would have fitted a narrower one. The result carries the unread rest
  of the buffer.
\<close>

definition ReadVarInt :: "bytes \<Rightarrow> enc_error + (u64 \<times> bytes)" where
  "ReadVarInt r =
     (case ReadUint8 r of
        Inl err \<Rightarrow> Inl err
      | Inr (d, r1) \<Rightarrow>
          if d = 0xff then
            (case ReadUint64LE r1 of
               Inl err \<Rightarrow> Inl err
             | Inr (rv, r2) \<Rightarrow>
                 if rv < 0x100000000 then Inl NonCanonical else Inr (rv, r2))
          else if d = 0xfe then
            (case ReadUint32LE r1 of
               Inl err \<Rightarrow> Inl err
             | Inr (v, r2) \<Rightarrow>
                 let rv = (ucast v :: u64) in
                 if rv < 0x10000 then Inl NonCanonical else Inr (rv, r2))
          else if d = 0xfd then
            (case ReadUint16LE r1 of
               Inl err \<Rightarrow> Inl err
             | Inr (v, r2) \<Rightarrow>
                 let rv = (ucast v :: u64) in
                 if rv < 0xfd then Inl NonCanonical else Inr (rv, r2))
          else Inr (ucast d, r1))"

text \<open>\<open>WriteVarInt\<close>: the narrowest form that holds the value.\<close>

definition WriteVarInt :: "bytes \<Rightarrow> u64 \<Rightarrow> enc_error + bytes" where
  "WriteVarInt w v =
     (if v < 0xfd then WriteUint8 w (ucast v)
      else if v \<le> 2 ^ 16 - 1 then
        (case WriteUint8 w 0xfd of
           Inl err \<Rightarrow> Inl err
         | Inr w1 \<Rightarrow> WriteUint16LE w1 (ucast v))
      else if v \<le> 2 ^ 32 - 1 then
        (case WriteUint8 w 0xfe of
           Inl err \<Rightarrow> Inl err
         | Inr w1 \<Rightarrow> WriteUint32LE w1 (ucast v))
      else
        (case WriteUint8 w 0xff of
           Inl err \<Rightarrow> Inl err
         | Inr w1 \<Rightarrow> WriteUint64LE w1 v))"

definition VarIntEncodeSize :: "u64 \<Rightarrow> u64" where
  "VarIntEncodeSize v =
     (if v < 0xfd then 1
      else if v \<le> 2 ^ 16 - 1 then 3
      else if v \<le> 2 ^ 32 - 1 then 5
      else 9)"

text \<open>
  The wire format as the spec words it, to compare \<open>WriteVarInt\<close> with:
  \<open><0xfd\<close> is one literal byte; \<open>0xfd,u16LE\<close> up to \<open>0xffff\<close>; \<open>0xfe,u32LE\<close> up to
  \<open>0xffffffff\<close>; \<open>0xff,u64LE\<close> otherwise.
\<close>

definition compactSize :: "u64 \<Rightarrow> bytes" where
  "compactSize v =
     (if v < 0xfd then [ucast v]
      else if v \<le> 0xffff then 0xfd # leEncode 2 (ucast v :: u16)
      else if v \<le> 0xffffffff then 0xfe # leEncode 4 (ucast v :: u32)
      else 0xff # leEncode 8 v)"

section \<open>The agreement store (package agreement, store)\<close>

text \<open>
  An \<open>Agreement\<close> embeds its header (\<open>Round\<close>, \<open>Step\<close>, \<open>BlockHash\<close>, the sender's
  key) and carries the signed votes and their integer representation \<open>intRepr\<close>, which
  \<open>Less\<close> compares. The store keeps, per step, a slice of agreements.
\<close>

record Agreement =
  ag_Round :: u64
  ag_Step :: u8
  ag_BlockHash :: bytes
  ag_PubKeyBLS :: bytes
  signedVotes :: bytes
  intRepr :: int



text \<open>
  \<open>collected map[uint8]storedAgreements\<close>: a missing key reads as the \<open>nil\<close> slice,
  which has length 0.
\<close>

type_synonym store = "u8 \<rightharpoonup> Agreement list"













definition store_Clear :: "store \<Rightarrow> store" where
  "store_Clear s = Map.empty"









section \<open>Consensus events and the two-step reducer (package reduction, reducer)\<close>

text \<open>
  \<open>events.Header\<close> and the reduction event that embeds it. \<open>wire.Event\<close> is an
  interface: \<open>Aggregate\<close> asserts that each event of a vote set is a
  \<open>*events.Reduction\<close>, and panics on any other.
\<close>

record Header =
  PubKeyBLS :: bytes
  Round :: u64
  Step :: u8
  BlockHash :: bytes

record Reduction = Header +
  SignedHash :: bytes

datatype Event = ReductionEv "Reduction" | OtherEv bytes

record StepVotes =
  sv_Step :: u8
  BitSet :: u64
  Apk :: bytes
  Signature :: bytes

definition NewStepVotes :: StepVotes where
  "NewStepVotes = \<lparr>sv_Step = 0, BitSet = 0, Apk = [], Signature = []\<rparr>"

record AggregatedAgreement =
  aa_Header :: "Header option"
  VotesPerStep :: "StepVotes option list"
  SignedVotes :: bytes

text \<open>
  Modelled from the spec: \<open>events.NewAggregatedAgreement\<close> is not among the sources;
  the spec gives \<open>VotesPerStep: [StepVotes; 2]\<close>, two slots, empty at first.
\<close>

definition NewAggregatedAgreement :: AggregatedAgreement where
  "NewAggregatedAgreement = \<lparr>aa_Header = None, VotesPerStep = [None, None], SignedVotes = []\<rparr>"

datatype topic = Gossip | ReductionTopic | AgreementTopic | BlockRegenerationTopic

text \<open>
  What the publisher was handed: the bus topic, and either a message that
  \<open>wire.AddTopic\<close> framed with a wire topic or a plain buffer.
\<close>

datatype message = Framed topic bytes | Plain bytes

type_synonym publication = "topic \<times> message"

text \<open>
  The reducer's collaborators (committee, handler, keys, the \<open>events\<close>, \<open>wire\<close> and
  \<open>encoding\<close> functions it calls) are outside the sources; they are the fields of an
  environment. Each of them that returns a Go \<open>error\<close> may fail here.
\<close>

record red_env =
  AmMember :: "u64 \<Rightarrow> u8 \<Rightarrow> bool"
  Pack :: "bytes list \<Rightarrow> u64 \<Rightarrow> u8 \<Rightarrow> u64"
  ExtractIdentifier :: "Event \<Rightarrow> go_error + bytes"
  BLSPubKeyBytes :: bytes
  EdPubKeyBytes :: bytes
  MarshalSignableVote :: "Header \<Rightarrow> go_error + bytes"
  SignReduction :: "bytes \<Rightarrow> go_error + bytes"
  AddTopic :: "bytes \<Rightarrow> topic \<Rightarrow> go_error + bytes"
  StepVotes_Add :: "StepVotes \<Rightarrow> Reduction \<Rightarrow> go_error + StepVotes"
  SignAgreementEvent :: "AggregatedAgreement \<Rightarrow> go_error + AggregatedAgreement"
  MarshalAggregatedAgreement :: "AggregatedAgreement \<Rightarrow> go_error + bytes"
  ed25519_Sign :: "bytes \<Rightarrow> bytes"
  Write512 :: "bytes \<Rightarrow> bytes \<Rightarrow> go_error + bytes"
  Write256 :: "bytes \<Rightarrow> bytes \<Rightarrow> go_error + bytes"

text \<open>
  The reducer: its \<open>stale\<close> flag, the consensus state \<open>(Round, Step)\<close> of its context,
  and, as traces, what it handed to the publisher and the absentee reports it made.
\<close>

record reducer =
  stale :: bool
  state_Round :: u64
  state_Step :: u8
  published :: "publication list"
  absentee_reports :: "(u64 \<times> u8) list"

text \<open>
  \<open>eventStopWatch.fetch\<close> selects among the timer, the channel of collected votes and
  the stop channel; which of them fires is the input. A timeout and a stop both give the
  \<open>nil\<close> slice (\<open>None\<close>); the channel gives the batch sent on it.
\<close>

datatype fetch_outcome = TimerFired | Collected "Event list option" | StopSignal

fun fetch :: "fetch_outcome \<Rightarrow> Event list option" where
  "fetch TimerFired = None"
| "fetch (Collected collectedVotes) = collectedVotes"
| "fetch StopSignal = None"

definition inCommittee :: "red_env \<Rightarrow> reducer \<Rightarrow> bool" where
  "inCommittee env r = AmMember env (state_Round r) (state_Step r)"

text \<open>
  Modelled from the spec: the consensus state's \<open>IncrementStep\<close> is not among the
  sources ("Step increments within a round"); \<open>Step\<close> is a \<open>uint8\<close>.
\<close>

definition IncrementStep :: "reducer \<Rightarrow> reducer" where
  "IncrementStep r = r\<lparr>state_Step := state_Step r + 1\<rparr>"

definition ReportAbsentees :: "reducer \<Rightarrow> reducer" where
  "ReportAbsentees r = r\<lparr>absentee_reports := absentee_reports r @ [(state_Round r, state_Step r)]\<rparr>"

definition Publish :: "reducer \<Rightarrow> topic \<Rightarrow> message \<Rightarrow> reducer" where
  "Publish r t m = r\<lparr>published := published r @ [(t, m)]\<rparr>"

text \<open>\<open>sendReduction\<close>: every failing step is logged and ends the call without a publication.\<close>

definition sendReduction :: "red_env \<Rightarrow> reducer \<Rightarrow> bytes \<Rightarrow> reducer" where
  "sendReduction env r hash =
     (let h = \<lparr>PubKeyBLS = BLSPubKeyBytes env, Round = state_Round r,
               Step = state_Step r, BlockHash = hash\<rparr>
      in case MarshalSignableVote env h of
           Inl err \<Rightarrow> r
         | Inr vote \<Rightarrow>
             (case SignReduction env vote of
                Inl err \<Rightarrow> r
              | Inr signedBuf \<Rightarrow>
                  (case AddTopic env signedBuf ReductionTopic of
                     Inl err \<Rightarrow> r
                   | Inr msg \<Rightarrow> Publish r Gossip (Framed ReductionTopic msg))))"

text \<open>
  \<open>Aggregate\<close>, first loop: per step, the \<open>StepVotes\<close> aggregated so far and the set
  of the voters' keys. The Go map is kept as an association list in the order in which
  the steps were first met.
\<close>

type_synonym stepVotesMap = "(u8 \<times> StepVotes \<times> bytes list) list"

fun map_put :: "'k \<Rightarrow> 'v \<Rightarrow> ('k \<times> 'v) list \<Rightarrow> ('k \<times> 'v) list" where
  "map_put k v [] = [(k, v)]"
| "map_put k v ((k', v') # m) = (if k = k' then (k, v) # m else (k', v') # map_put k v m)"

fun aggregate_votes ::
  "red_env \<Rightarrow> Event list \<Rightarrow> stepVotesMap \<Rightarrow> go_panic + (go_error + stepVotesMap)" where
  "aggregate_votes env [] m = Inr (Inr m)"
| "aggregate_votes env (OtherEv b # voteSet) m = Inl TypeAssertion"
| "aggregate_votes env (ReductionEv reduction # voteSet) m =
     (let (sv, provisioners) =
            (case map_of m (Step reduction) of
               None \<Rightarrow> (NewStepVotes, [])
             | Some found \<Rightarrow> found)
      in case StepVotes_Add env sv reduction of
           Inl err \<Rightarrow> Inr (Inl err)
         | Inr sv' \<Rightarrow>
             aggregate_votes env voteSet
               (map_put (Step reduction) (sv', List.insert (PubKeyBLS reduction) provisioners) m))"

text \<open>
  Second loop: the map's entries fill \<open>VotesPerStep\<close> from index 0; a third entry is
  an index out of range. Go leaves the order of a map's iteration open; here it is the
  order of the association list.
\<close>

fun fill_votes ::
  "red_env \<Rightarrow> Header \<Rightarrow> stepVotesMap \<Rightarrow> nat \<Rightarrow> StepVotes option list \<Rightarrow> go_panic + StepVotes option list" where
  "fill_votes env h [] i vps = Inr vps"
| "fill_votes env h ((k, sv, provisioners) # m) i vps =
     (if i < length vps
      then fill_votes env h m (i + 1)
             (vps[i := Some (sv\<lparr>BitSet := Pack env provisioners (Round h) (sv_Step sv)\<rparr>)])
      else Inl IndexOutOfRange)"

definition Aggregate ::
  "red_env \<Rightarrow> Header \<Rightarrow> Event list \<Rightarrow> go_panic + (go_error + AggregatedAgreement)" where
  "Aggregate env h voteSet =
     (case aggregate_votes env voteSet [] of
        Inl p \<Rightarrow> Inl p
      | Inr (Inl err) \<Rightarrow> Inr (Inl err)
      | Inr (Inr stepVotesMap) \<Rightarrow>
          (case fill_votes env h stepVotesMap 0 (VotesPerStep NewAggregatedAgreement) of
             Inl p \<Rightarrow> Inl p
           | Inr vps \<Rightarrow>
               Inr (Inr (NewAggregatedAgreement\<lparr>aa_Header := Some h, VotesPerStep := vps\<rparr>))))"

text \<open>\<open>signEd25519\<close>: signature, then public key, then the event; a failed write panics.\<close>

definition signEd25519 :: "red_env \<Rightarrow> bytes \<Rightarrow> go_panic + bytes" where
  "signEd25519 env eventBuf =
     (let signature = ed25519_Sign env eventBuf
      in case Write512 env [] signature of
           Inl err \<Rightarrow> Inl ErrorPanic
         | Inr buf1 \<Rightarrow>
             (case Write256 env buf1 (EdPubKeyBytes env) of
                Inl err \<Rightarrow> Inl ErrorPanic
              | Inr buf2 \<Rightarrow> Inr (buf2 @ eventBuf)))"

text \<open>
  \<open>sendAgreement\<close> up to the call of the publisher: the framed message, or the error
  that a step logged and returned on. \<open>sendAgreement\<close> publishes the message when there
  is one.
\<close>

definition agreementMessage ::
  "red_env \<Rightarrow> reducer \<Rightarrow> Event list \<Rightarrow> bytes \<Rightarrow> go_panic + (go_error + bytes)" where
  "agreementMessage env r evs hash =
     (let h = \<lparr>PubKeyBLS = BLSPubKeyBytes env, Round = state_Round r,
               Step = state_Step r, BlockHash = hash\<rparr>
      in case Aggregate env h evs of
           Inl p \<Rightarrow> Inl p
         | Inr (Inl err) \<Rightarrow> Inr (Inl err)
         | Inr (Inr a) \<Rightarrow>
             (case SignAgreementEvent env a of
                Inl err \<Rightarrow> Inr (Inl err)
              | Inr a' \<Rightarrow>
                  (case MarshalAggregatedAgreement env a' of
                     Inl err \<Rightarrow> Inr (Inl err)
                   | Inr buffer \<Rightarrow>
                       (case signEd25519 env buffer of
                          Inl p \<Rightarrow> Inl p
                        | Inr signedBuf \<Rightarrow>
                            (case AddTopic env signedBuf AgreementTopic of
                               Inl err \<Rightarrow> Inr (Inl err)
                             | Inr msg \<Rightarrow> Inr (Inr msg))))))"

definition sendAgreement :: "red_env \<Rightarrow> reducer \<Rightarrow> Event list \<Rightarrow> bytes \<Rightarrow> go_panic + reducer" where
  "sendAgreement env r evs hash =
     (case agreementMessage env r evs hash of
        Inl p \<Rightarrow> Inl p
      | Inr (Inl err) \<Rightarrow> Inr r
      | Inr (Inr msg) \<Rightarrow> Inr (Publish r Gossip (Framed AgreementTopic msg)))"

definition publishRegeneration :: "reducer \<Rightarrow> reducer" where
  "publishRegeneration r =
     (let roundAndStep = leEncode 8 (state_Round r) @ [state_Step r]
      in Publish r BlockRegenerationTopic (Plain roundAndStep))"

definition zeroHash :: bytes where
  "zeroHash = replicate 32 0"

definition isReductionSuccessful :: "bytes \<Rightarrow> bytes \<Rightarrow> bool" where
  "isReductionSuccessful hash1 hash2 =
     (let bothNotNil = (hash1 \<noteq> zeroHash \<and> hash2 \<noteq> zeroHash);
          identicalResults = (hash1 = hash2)
      in bothNotNil \<and> identicalResults)"

text \<open>
  \<open>extractHash\<close>: the zero hash for the \<open>nil\<close> batch, else the identifier of the
  first event. An empty batch that is not \<open>nil\<close> has no first event, and a handler
  error is turned into a panic.
\<close>

definition extractHash :: "red_env \<Rightarrow> Event list option \<Rightarrow> go_panic + bytes" where
  "extractHash env events =
     (case events of
        None \<Rightarrow> Inr zeroHash
      | Some [] \<Rightarrow> Inl IndexOutOfRange
      | Some (e # es) \<Rightarrow>
          (case ExtractIdentifier env e of
             Inl err \<Rightarrow> Inl ErrorPanic
           | Inr hash \<Rightarrow> Inr hash))"

definition slice_append :: "'a list option \<Rightarrow> 'a list option \<Rightarrow> 'a list" where
  "slice_append xs ys =
     (case xs of None \<Rightarrow> [] | Some a \<Rightarrow> a) @ (case ys of None \<Rightarrow> [] | Some b \<Rightarrow> b)"

text \<open>
  \<open>begin\<close> runs in two sections, each under the read lock and each entered after a
  \<open>fetch\<close> returns. \<open>begin_first\<close> is the code from the first \<open>fetch\<close> to the first
  \<open>RUnlock\<close>; it yields the first hash. \<open>begin_second\<close> is the rest.
\<close>

definition begin_first :: "red_env \<Rightarrow> reducer \<Rightarrow> fetch_outcome \<Rightarrow> go_panic + (bytes \<times> reducer)" where
  "begin_first env r f1 =
     (let events = fetch f1
      in case extractHash env events of
           Inl p \<Rightarrow> Inl p
         | Inr hash1 \<Rightarrow>
             if \<not> stale r then
               (let r1 = (if events = None then ReportAbsentees r else r);
                    r2 = IncrementStep r1;
                    r3 = (if inCommittee env r2 then sendReduction env r2 hash1 else r2)
                in Inr (hash1, r3))
             else Inr (hash1, r))"

definition begin_second ::
  "red_env \<Rightarrow> reducer \<Rightarrow> Event list option \<Rightarrow> bytes \<Rightarrow> fetch_outcome \<Rightarrow> go_panic + reducer" where
  "begin_second env r events hash1 f2 =
     (let eventsSecondStep = fetch f2
      in if \<not> stale r then
           (let r1 = (if eventsSecondStep = None then ReportAbsentees r else r)
            in case extractHash env eventsSecondStep of
                 Inl p \<Rightarrow> Inl p
               | Inr hash2 \<Rightarrow>
                   (let allEvents = slice_append events eventsSecondStep
                    in case (if isReductionSuccessful hash1 hash2 \<and> inCommittee env r1
                             then sendAgreement env r1 allEvents hash2
                             else Inr r1) of
                         Inl p \<Rightarrow> Inl p
                       | Inr r2 \<Rightarrow> Inr (publishRegeneration (IncrementStep r2))))
         else Inr r)"

text \<open>
  \<open>reducer_begin\<close> is a whole run of \<open>begin\<close> with nothing else touching the
  reducer in between (\<open>begin\<close> and \<open>end\<close> are keywords of Isabelle, hence the prefix).
\<close>

definition reducer_begin :: "red_env \<Rightarrow> reducer \<Rightarrow> fetch_outcome \<Rightarrow> fetch_outcome \<Rightarrow> go_panic + reducer" where
  "reducer_begin env r f1 f2 =
     (case begin_first env r f1 of
        Inl p \<Rightarrow> Inl p
      | Inr (hash1, r') \<Rightarrow> begin_second env r' (fetch f1) hash1 f2)"

definition startReduction :: "red_env \<Rightarrow> reducer \<Rightarrow> bytes \<Rightarrow> reducer" where
  "startReduction env r hash = sendReduction env (r\<lparr>stale := False\<rparr>) hash"

text \<open>
  \<open>end\<close> takes the write lock, so it runs between the locked sections of \<open>begin\<close>,
  never inside one. Its two \<open>stop\<close> calls are non-blocking sends: a \<open>stop\<close> makes the
  \<open>fetch\<close> of a run that is waiting on that watch return \<open>nil\<close> (the outcome
  \<open>StopSignal\<close>); when no run waits on the watch the send is dropped and changes
  nothing.
\<close>

definition reducer_end :: "reducer \<Rightarrow> reducer" where
  "reducer_end r = r\<lparr>stale := True\<rparr>"

text \<open>
  Where a run of \<open>begin\<close> stands: before its first \<open>fetch\<close> returned; before its
  second, holding the first batch and hash; returned; or panicked. \<open>begin_step\<close> is
  what such a run does when the \<open>fetch\<close> it waits in returns.
\<close>

datatype begin_pc = AtFirstFetch | AtSecondFetch "Event list option" bytes | Returned | Panicked go_panic

fun begin_step :: "red_env \<Rightarrow> reducer \<Rightarrow> begin_pc \<Rightarrow> fetch_outcome \<Rightarrow> reducer \<times> begin_pc" where
  "begin_step env r AtFirstFetch f =
     (case begin_first env r f of
        Inl p \<Rightarrow> (r, Panicked p)
      | Inr (hash1, r') \<Rightarrow> (r', AtSecondFetch (fetch f) hash1))"
| "begin_step env r (AtSecondFetch events hash1) f =
     (case begin_second env r events hash1 f of
        Inl p \<Rightarrow> (r, Panicked p)
      | Inr r' \<Rightarrow> (r', Returned))"
| "begin_step env r Returned f = (r, Returned)"
| "begin_step env r (Panicked p) f = (r, Panicked p)"

text \<open>
  The reducer with its runs of \<open>begin\<close>, in the order in which they were started
  (every \<open>startReduction\<close> starts one with \<open>go r.begin()\<close>, and the runs share the one
  reducer with its \<open>stale\<close> flag). What can happen: the \<open>fetch\<close> of run \<open>i\<close> returns,
  \<open>end\<close> is called, or \<open>startReduction\<close> is called. \<open>startReduction\<close> is taken as
  one step: it marks the reducer as not stale under the write lock, sends the
  reduction vote and starts a further run. A panic of a run is not recovered and ends
  the program, so nothing happens after it.
\<close>

datatype reducer_action = FetchReturns nat fetch_outcome | EndCalled | StartReductionCalled bytes

fun isPanicked :: "begin_pc \<Rightarrow> bool" where
  "isPanicked (Panicked p) = True"
| "isPanicked pc = False"

definition crashed :: "begin_pc list \<Rightarrow> bool" where
  "crashed runs = list_ex isPanicked runs"

fun reducer_action_step ::
  "red_env \<Rightarrow> reducer \<times> begin_pc list \<Rightarrow> reducer_action \<Rightarrow> reducer \<times> begin_pc list" where
  "reducer_action_step env (r, runs) EndCalled = (reducer_end r, runs)"
| "reducer_action_step env (r, runs) (StartReductionCalled hash) =
     (startReduction env r hash, runs @ [AtFirstFetch])"
| "reducer_action_step env (r, runs) (FetchReturns i f) =
     (if i < length runs
      then (case begin_step env r (runs ! i) f of (r', pc') \<Rightarrow> (r', runs[i := pc']))
      else (r, runs))"

definition reducer_step ::
  "red_env \<Rightarrow> reducer \<times> begin_pc list \<Rightarrow> reducer_action \<Rightarrow> reducer \<times> begin_pc list" where
  "reducer_step env s a = (if crashed (snd s) then s else reducer_action_step env s a)"

fun reducer_run ::
  "red_env \<Rightarrow> reducer \<times> begin_pc list \<Rightarrow> reducer_action list \<Rightarrow> reducer \<times> begin_pc list" where
  "reducer_run env s [] = s"
| "reducer_run env s (a # as) = reducer_run env (reducer_step env s a) as"

text \<open>Whether an action is a call of \<open>startReduction\<close>.\<close>

fun isStartReduction :: "reducer_action \<Rightarrow> bool" where
  "isStartReduction (StartReductionCalled hash) = True"
| "isStartReduction a = False"

definition isAgreement :: "publication \<Rightarrow> bool" where
  "isAgreement p = (case p of (Gossip, Framed AgreementTopic m) \<Rightarrow> True | _ \<Rightarrow> False)"

definition agreements :: "reducer \<Rightarrow> publication list" where
  "agreements r = filter isAgreement (published r)"

subsection \<open>A concrete environment for evaluating the reducer\<close>

text \<open>
  An instance of the environment on which every step succeeds, and a second one in
  which \<open>StepVotes.Add\<close> returns an error; the reducer's functions are evaluated on them.
\<close>

definition topic_byte :: "topic \<Rightarrow> byte" where
  "topic_byte t = (case t of Gossip \<Rightarrow> 1 | ReductionTopic \<Rightarrow> 2 | AgreementTopic \<Rightarrow> 3
                   | BlockRegenerationTopic \<Rightarrow> 4)"

definition demo_env :: red_env where
  "demo_env =
     \<lparr>AmMember = (\<lambda>round step. True),
      Pack = (\<lambda>provisioners round step. of_nat (length provisioners)),
      ExtractIdentifier =
        (\<lambda>ev. case ev of ReductionEv red \<Rightarrow> Inr (BlockHash red)
                        | OtherEv b \<Rightarrow> Inl ''not a reduction event''),
      BLSPubKeyBytes = [0xb1],
      EdPubKeyBytes = [0xed],
      MarshalSignableVote = (\<lambda>h. Inr (Step h # BlockHash h)),
      SignReduction = (\<lambda>vote. Inr (0x5a # vote)),
      AddTopic = (\<lambda>buf t. Inr (topic_byte t # buf)),
      StepVotes_Add = (\<lambda>sv red. Inr (sv\<lparr>sv_Step := Step red,
                                           Signature := Signature sv @ SignedHash red\<rparr>)),
      SignAgreementEvent = (\<lambda>a. Inr (a\<lparr>SignedVotes := [0x5b]\<rparr>)),
      MarshalAggregatedAgreement = (\<lambda>a. Inr (SignedVotes a)),
      ed25519_Sign = (\<lambda>b. [0x5c]),
      Write512 = (\<lambda>buf d. Inr (buf @ d)),
      Write256 = (\<lambda>buf d. Inr (buf @ d))\<rparr>"

definition demo_env_add_fails :: red_env where
  "demo_env_add_fails =
     demo_env\<lparr>StepVotes_Add := (\<lambda>sv red. Inl ''mismatched step in aggregating vote set'')\<rparr>"

definition hash_11 :: bytes where
  "hash_11 = replicate 32 0x11"

definition hash_22 :: bytes where
  "hash_22 = replicate 32 0x22"

definition vote :: "byte \<Rightarrow> u8 \<Rightarrow> bytes \<Rightarrow> Event" where
  "vote sender step hash =
     ReductionEv \<lparr>PubKeyBLS = [sender], Round = 1, Step = step, BlockHash = hash,
                  SignedHash = [sender]\<rparr>"

definition reducer_0 :: reducer where
  "reducer_0 = \<lparr>stale = False, state_Round = 1, state_Step = 1, published = [],
                absentee_reports = []\<rparr>"

definition batch_1 :: fetch_outcome where
  "batch_1 = Collected (Some [vote 1 1 hash_11, vote 2 1 hash_11])"

definition batch_2 :: fetch_outcome where
  "batch_2 = Collected (Some [vote 1 2 hash_11, vote 3 2 hash_11])"

text \<open>What \<open>begin\<close> leaves of \<open>reducer_0\<close> after the two batches, every step succeeding.\<close>

definition reducer_0_done :: reducer where
  "reducer_0_done =
     \<lparr>stale = False, state_Round = 1, state_Step = 3,
      published =
        [(Gossip, Framed ReductionTopic (2 # 0x5a # 2 # hash_11)),
         (Gossip, Framed AgreementTopic [3, 0x5c, 0xed, 0x5b]),
         (BlockRegenerationTopic, Plain [1, 0, 0, 0, 0, 0, 0, 0, 3])],
      absentee_reports = []\<rparr>"

text \<open>
  A reducer that was started, then ended while its run waited in the first \<open>fetch\<close>,
  and the same reducer after it was started again: each \<open>startReduction\<close> has sent
  its reduction vote, and nothing else has been published.
\<close>

definition reducer_0_ended :: reducer where
  "reducer_0_ended =
     \<lparr>stale = True, state_Round = 1, state_Step = 1,
      published = [(Gossip, Framed ReductionTopic (2 # 0x5a # 1 # hash_11))],
      absentee_reports = []\<rparr>"

definition reducer_0_restarted :: reducer where
  "reducer_0_restarted =
     \<lparr>stale = False, state_Round = 1, state_Step = 1,
      published = [(Gossip, Framed ReductionTopic (2 # 0x5a # 1 # hash_11)),
                   (Gossip, Framed ReductionTopic (2 # 0x5a # 1 # hash_22))],
      absentee_reports = []\<rparr>"

section \<open>The event queue and the collectors (packages consensus, reduction, selection)\<close>

text \<open>
  Modelled from the spec: \<open>consensus.EventQueue\<close> is not among the sources. The spec
  gives it as a nested mapping \<open>Round \<rightarrow> Step \<rightarrow> ordered sequence of events\<close> with
  \<open>PutEvent(round, step, ev)\<close>, \<open>GetEvents(round, step)\<close> (drain), \<open>ConsumeUntil(round)\<close>
  (drop all entries with \<open>Round < round\<close>) and \<open>Clear(round)\<close> (drop all entries at that
  round).
\<close>

type_synonym 'e EventQueue = "u64 \<rightharpoonup> (u8 \<rightharpoonup> 'e list)"

definition NewEventQueue :: "'e EventQueue" where
  "NewEventQueue = Map.empty"

definition events_at :: "'e EventQueue \<Rightarrow> u64 \<Rightarrow> u8 \<Rightarrow> 'e list" where
  "events_at q round step =
     (case q round of
        None \<Rightarrow> []
      | Some m \<Rightarrow> (case m step of None \<Rightarrow> [] | Some evs \<Rightarrow> evs))"

definition PutEvent :: "'e EventQueue \<Rightarrow> u64 \<Rightarrow> u8 \<Rightarrow> 'e \<Rightarrow> 'e EventQueue" where
  "PutEvent q round step ev =
     (let m = (case q round of None \<Rightarrow> Map.empty | Some m \<Rightarrow> m)
      in q(round \<mapsto> m(step \<mapsto> events_at q round step @ [ev])))"

definition GetEvents :: "'e EventQueue \<Rightarrow> u64 \<Rightarrow> u8 \<Rightarrow> 'e list \<times> 'e EventQueue" where
  "GetEvents q round step =
     (events_at q round step,
      (case q round of None \<Rightarrow> q | Some m \<Rightarrow> q(round \<mapsto> m(step := None))))"

definition ConsumeUntil :: "'e EventQueue \<Rightarrow> u64 \<Rightarrow> 'e EventQueue" where
  "ConsumeUntil q round = (\<lambda>r. if r < round then None else q r)"

definition queue_Clear :: "'e EventQueue \<Rightarrow> u64 \<Rightarrow> 'e EventQueue" where
  "queue_Clear q round = q(round := None)"

text \<open>
  Modelled from the spec: \<open>consensus.StepEventCollector\<close>, a \<open>map[string][]wire.Event\<close>
  by its use, is not among the sources. \<open>Store\<close> appends the event to the slice under
  the key and gives the slice's new length ("appends the event to
  \<open>collected[identifier]\<close>"); \<open>Clear\<close> empties the map.
\<close>

type_synonym StepEventCollector = "string \<rightharpoonup> Event list"

definition collected_at :: "StepEventCollector \<Rightarrow> string \<Rightarrow> Event list" where
  "collected_at sec k = (case sec k of None \<Rightarrow> [] | Some evs \<Rightarrow> evs)"

definition Store :: "StepEventCollector \<Rightarrow> Event \<Rightarrow> string \<Rightarrow> StepEventCollector \<times> int" where
  "Store sec ev k =
     (let eventList = collected_at sec k @ [ev]
      in (sec(k \<mapsto> eventList), int (length eventList)))"

definition sec_Clear :: "StepEventCollector \<Rightarrow> StepEventCollector" where
  "sec_Clear sec = Map.empty"

text \<open>Go's \<open>hex.EncodeToString\<close>: two lower-case hexadecimal digits per byte.\<close>

definition hexdigit :: "nat \<Rightarrow> char" where
  "hexdigit n = ''0123456789abcdef'' ! n"

definition EncodeToString :: "bytes \<Rightarrow> string" where
  "EncodeToString bs = concat (map (\<lambda>b. [hexdigit (unat b div 16), hexdigit (unat b mod 16)]) bs)"

text \<open>
  The header a handler extracts from an event, and the handler's methods that the
  collectors call. The handlers are interfaces implemented outside the sources; they are
  parameters. \<open>EmbedVoteHash\<close> gives the bytes it writes to the buffer it is handed, or
  an error.
\<close>

record EventHeader =
  eh_Round :: u64
  eh_Step :: u8

record ev_handler =
  Unmarshal :: "bytes \<Rightarrow> go_error + Event"
  Verify :: "Event \<Rightarrow> go_error option"
  ExtractHeader :: "Event \<Rightarrow> EventHeader"
  EmbedVoteHash :: "Event \<Rightarrow> go_error + bytes"

subsection \<open>The reduction collector\<close>

text \<open>
  The collector embeds the \<open>StepEventCollector\<close>; \<open>collectedVotesChan\<close> is the sequence
  of batches sent on the channel; \<open>ctx_Round\<close>, \<open>ctx_Step\<close> are \<open>ctx.state\<close> and
  \<open>Quorum\<close> is what \<open>ctx.committee.Quorum()\<close> returns; \<open>col_reducer\<close> is the reducer
  pointer, \<open>None\<close> for \<open>nil\<close>.
\<close>

record collector =
  StepEventCollector :: StepEventCollector
  collectedVotesChan :: "Event list list"
  queue :: "Event EventQueue"
  col_reducer :: "reducer option"
  ctx_Round :: u64
  ctx_Step :: u8
  Quorum :: int

text \<open>
  \<open>process\<close>. The slice \<open>b\<close> is made with length 0 and capacity 32 and handed to
  \<open>bytes.NewBuffer\<close>; what \<open>EmbedVoteHash\<close> writes goes to the buffer, whose own slice
  grows, while \<open>b\<close> keeps its length 0. \<open>hex.EncodeToString(b)\<close> therefore encodes no
  byte, and every event is stored under the same key. A batch is sent when the count
  that \<open>Store\<close> returns is greater than the quorum; the collector is cleared after.
\<close>

definition process :: "ev_handler \<Rightarrow> collector \<Rightarrow> Event \<Rightarrow> collector" where
  "process h c ev =
     (let b = ([] :: bytes)
      in case EmbedVoteHash h ev of
           Inl err \<Rightarrow> c
         | Inr written \<Rightarrow>
             (let hash = EncodeToString b;
                  (sec, count) = Store (StepEventCollector c) ev hash
              in if count > Quorum c then
                   (let votes = collected_at sec hash
                    in c\<lparr>collectedVotesChan := collectedVotesChan c @ [votes],
                         StepEventCollector := sec_Clear sec\<rparr>)
                 else c\<lparr>StepEventCollector := sec\<rparr>))"

definition isRelevant :: "collector \<Rightarrow> u64 \<Rightarrow> u8 \<Rightarrow> bool" where
  "isRelevant c round step = (ctx_Round c = round \<and> ctx_Step c = step \<and> col_reducer c \<noteq> None)"

definition isEarly :: "collector \<Rightarrow> u64 \<Rightarrow> u8 \<Rightarrow> bool" where
  "isEarly c round step = (ctx_Round c < round \<or> ctx_Round c = round \<and> ctx_Step c < step)"

definition Collect :: "ev_handler \<Rightarrow> collector \<Rightarrow> bytes \<Rightarrow> collector \<times> go_error option" where
  "Collect h c buffer =
     (case Unmarshal h buffer of
        Inl err \<Rightarrow> (c, Some err)
      | Inr ev \<Rightarrow>
          (case Verify h ev of
             Some err \<Rightarrow> (c, Some err)
           | None \<Rightarrow>
               (let header = ExtractHeader h ev
                in if isRelevant c (eh_Round header) (eh_Step header) then (process h c ev, None)
                   else if isEarly c (eh_Round header) (eh_Step header)
                   then (c\<lparr>queue := PutEvent (queue c) (eh_Round header) (eh_Step header) ev\<rparr>, None)
                   else (c, None))))"

definition flushQueue :: "ev_handler \<Rightarrow> collector \<Rightarrow> collector" where
  "flushQueue h c =
     (let (queuedEvents, q) = GetEvents (queue c) (ctx_Round c) (ctx_Step c)
      in foldl (process h) (c\<lparr>queue := q\<rparr>) queuedEvents)"

text \<open>
  \<open>updateRound\<close>: the state moves to the round and step 1; the queue is told to
  \<open>Clear\<close> the round just set; the collected events are cleared; a reducer, if there is
  one, is ended and let go.
\<close>

definition updateRound :: "collector \<Rightarrow> u64 \<Rightarrow> collector" where
  "updateRound c round =
     (let c1 = c\<lparr>ctx_Round := round, ctx_Step := 1\<rparr>;
          c2 = c1\<lparr>queue := queue_Clear (queue c1) (ctx_Round c1)\<rparr>;
          c3 = c2\<lparr>StepEventCollector := sec_Clear (StepEventCollector c2)\<rparr>
      in case col_reducer c3 of
           None \<Rightarrow> c3
         | Some r \<Rightarrow> c3\<lparr>col_reducer := None\<rparr>)"

definition onTimeout :: "collector \<Rightarrow> collector" where
  "onTimeout c = c\<lparr>StepEventCollector := sec_Clear (StepEventCollector c)\<rparr>"

subsection \<open>The selection collector\<close>

text \<open>
  \<open>selector\<close> is the selector pointer, \<open>None\<close> for \<open>nil\<close>, and holds the events sent
  on the selector's \<open>EventChan\<close>.
\<close>

record sel_collector =
  CurrentRound :: u64
  CurrentStep :: u8
  CurrentBlockHash :: bytes
  sel_queue :: "Event EventQueue"
  selector :: "Event list option"
  completed :: bool

definition sel_isObsolete :: "sel_collector \<Rightarrow> u64 \<Rightarrow> u8 \<Rightarrow> bool" where
  "sel_isObsolete s round step = (round < CurrentRound s \<or> step < CurrentStep s)"

definition sel_isEarly :: "sel_collector \<Rightarrow> u64 \<Rightarrow> u8 \<Rightarrow> bool" where
  "sel_isEarly s round step =
     (round > CurrentRound s \<or> step > CurrentStep s \<or> selector s = None)"

text \<open>
  \<open>process\<close> of the selection collector. The last branch sends on the selector's
  channel; \<open>isEarly\<close> has ruled out a \<open>nil\<close> selector there.
\<close>

definition sel_process :: "ev_handler \<Rightarrow> sel_collector \<Rightarrow> Event \<Rightarrow> sel_collector" where
  "sel_process h s ev =
     (let hd = ExtractHeader h ev
      in if sel_isObsolete s (eh_Round hd) (eh_Step hd) then s
         else if sel_isEarly s (eh_Round hd) (eh_Step hd)
         then s\<lparr>sel_queue := PutEvent (sel_queue s) (eh_Round hd) (eh_Step hd) ev\<rparr>
         else (case selector s of
                 None \<Rightarrow> s
               | Some sent \<Rightarrow> s\<lparr>selector := Some (sent @ [ev])\<rparr>))"

definition sel_Collect :: "ev_handler \<Rightarrow> sel_collector \<Rightarrow> bytes \<Rightarrow> sel_collector \<times> go_error option" where
  "sel_Collect h s r =
     (case Unmarshal h r of
        Inl err \<Rightarrow> (s, Some err)
      | Inr ev \<Rightarrow>
          (case Verify h ev of
             Some err \<Rightarrow> (s, Some err)
           | None \<Rightarrow> (sel_process h s ev, None)))"

definition stopSelection :: "sel_collector \<Rightarrow> sel_collector" where
  "stopSelection s = (case selector s of None \<Rightarrow> s | Some sent \<Rightarrow> s\<lparr>selector := None\<rparr>)"

definition UpdateRound :: "sel_collector \<Rightarrow> u64 \<Rightarrow> sel_collector" where
  "UpdateRound s round =
     (let s1 = s\<lparr>CurrentRound := round, CurrentStep := 1\<rparr>;
          s2 = stopSelection s1;
          s3 = s2\<lparr>completed := False\<rparr>
      in s3\<lparr>sel_queue := ConsumeUntil (sel_queue s3) (CurrentRound s3)\<rparr>)"

subsection \<open>A concrete handler and concrete collectors\<close>

definition event_at :: "u64 \<Rightarrow> u8 \<Rightarrow> byte \<Rightarrow> Event" where
  "event_at round step sender =
     ReductionEv \<lparr>PubKeyBLS = [sender], Round = round, Step = step, BlockHash = hash_11,
                  SignedHash = [sender]\<rparr>"

text \<open>
  The handler reads an event as three bytes: round, step and sender; it verifies every
  event and embeds the block hash.
\<close>

definition demo_handler :: ev_handler where
  "demo_handler =
     \<lparr>Unmarshal =
        (\<lambda>buf. case buf of
                 [r, s, k] \<Rightarrow> Inr (event_at (ucast r) s k)
               | _ \<Rightarrow> Inl ''unexpected EOF''),
      Verify = (\<lambda>ev. None),
      ExtractHeader =
        (\<lambda>ev. case ev of
                 ReductionEv red \<Rightarrow> \<lparr>eh_Round = Round red, eh_Step = Step red\<rparr>
               | OtherEv b \<Rightarrow> \<lparr>eh_Round = 0, eh_Step = 0\<rparr>),
      EmbedVoteHash =
        (\<lambda>ev. case ev of
                 ReductionEv red \<Rightarrow> Inr (BlockHash red)
               | OtherEv b \<Rightarrow> Inl ''not a reduction event'')\<rparr>"

text \<open>A reduction collector at round 4, step 1, with quorum 2 and a reducer running.\<close>

definition collector_0 :: collector where
  "collector_0 =
     \<lparr>StepEventCollector = Map.empty, collectedVotesChan = [], queue = NewEventQueue,
      col_reducer = Some reducer_0, ctx_Round = 4, ctx_Step = 1, Quorum = 2\<rparr>"

text \<open>A selection collector at round 4, step 3, its selector running.\<close>

definition sel_collector_0 :: sel_collector where
  "sel_collector_0 =
     \<lparr>CurrentRound = 4, CurrentStep = 3, CurrentBlockHash = [], sel_queue = NewEventQueue,
      selector = Some [], completed = False\<rparr>"



text \<open>
  The reduction collector after it collected, at round 4, step 1, an event of round 4,
  step 2, and an event of round 5, step 1.
\<close>

definition collector_queued :: collector where
  "collector_queued =
     fst (Collect demo_handler (fst (Collect demo_handler collector_0 [4, 2, 7])) [5, 1, 8])"

section \<open>Blocks, the chain and candidate validation (packages chain, candidate)\<close>

text \<open>
  The block structure as the spec gives it: a header with version, height, timestamp,
  previous hash, seed, transaction root, hash and certificate, and the transactions.
  Of a transaction the chain looks at its kind, its outputs' commitments and, for a
  stake, the two public keys, for a bid, the value \<open>M\<close>.
\<close>

record BlockHeader =
  Version :: u8
  Height :: u64
  Timestamp :: u64
  PrevHash :: bytes
  Seed :: bytes
  TxRoot :: bytes
  Hash :: bytes
  Certificate :: bytes

datatype Transaction =
    StakeTx (PubKeyEd: bytes) (StakeKeyBLS: bytes) (Outputs: "bytes list")
  | BidTx (M: bytes) (Outputs: "bytes list")
  | OtherTx (Outputs: "bytes list")

record Block =
  blk_Header :: BlockHeader
  Txs :: "Transaction list"

datatype bus_topic =
    AcceptedBlock | GossipStream | NewProvisionerTopic | BidListTopic | InvTopic | BlockTopic

text \<open>
  The database, the verifiers, the encoders and the zero-knowledge arithmetic are
  outside the sources. The database is a type parameter; a transaction on it either
  fails and leaves it as it was or gives the database after it.
\<close>

record 'db chain_env =
  CheckBlock :: "'db \<Rightarrow> Block \<Rightarrow> Block \<Rightarrow> go_error option"
  StoreBlock :: "'db \<Rightarrow> Block \<Rightarrow> go_error + 'db"
  StoreCandidateBlock :: "'db \<Rightarrow> Block \<Rightarrow> go_error + 'db"
  FetchCandidateBlock :: "'db \<Rightarrow> bytes \<Rightarrow> go_error + Block"
  DeleteCandidateBlocks :: "'db \<Rightarrow> u64 \<Rightarrow> go_error + (u32 \<times> 'db)"
  EncodeBlock :: "Block \<Rightarrow> go_error + bytes"
  EncodeInv :: "bytes \<Rightarrow> go_error + bytes"
  chain_AddTopic :: "bytes \<Rightarrow> bus_topic \<Rightarrow> go_error + bytes"
  CalculateX :: "u64 \<Rightarrow> bytes \<Rightarrow> bytes"

text \<open>
  The chain: the tip \<open>prevBlock\<close>, the bid list, the database, and as a trace what was
  published or streamed on the event bus.
\<close>

record 'db Chain =
  prevBlock :: Block
  bidList :: "bytes list"
  db :: 'db
  eventBus :: "(bus_topic \<times> bytes) list"

definition bus_send :: "'db Chain \<Rightarrow> bus_topic \<Rightarrow> bytes \<Rightarrow> 'db Chain" where
  "bus_send c t buf = c\<lparr>eventBus := eventBus c @ [(t, buf)]\<rparr>"

text \<open>
  \<open>getTxTotalOutputAmount\<close>: each commitment is read as a big-endian integer, cut to
  64 bits, and added into a \<open>uint64\<close>.
\<close>

definition commitment_amount :: "bytes \<Rightarrow> u64" where
  "commitment_amount commitment = of_nat (foldl (\<lambda>acc b. acc * 256 + unat b) 0 commitment)"

definition getTxTotalOutputAmount :: "Transaction \<Rightarrow> u64" where
  "getTxTotalOutputAmount tx =
     foldl (\<lambda>totalAmount output. totalAmount + commitment_amount output) 0 (Outputs tx)"

text \<open>Modelled from the spec: \<open>encoding.WriteVarBytes\<close>, "varint length then raw bytes".\<close>

definition WriteVarBytes :: "bytes \<Rightarrow> bytes \<Rightarrow> enc_error + bytes" where
  "WriteVarBytes w b =
     (case WriteVarInt w (of_nat (length b)) of
        Inl err \<Rightarrow> Inl err
      | Inr w1 \<Rightarrow> Inr (w1 @ b))"

definition addProvisioner :: "'db Chain \<Rightarrow> Transaction \<Rightarrow> u64 \<Rightarrow> 'db Chain \<times> enc_error option" where
  "addProvisioner c tx startHeight =
     (case WriteVarBytes (PubKeyEd tx) (StakeKeyBLS tx) of
        Inl err \<Rightarrow> (c, Some err)
      | Inr b1 \<Rightarrow>
          (let totalAmount = getTxTotalOutputAmount tx
           in case WriteUint64LE b1 totalAmount of
                Inl err \<Rightarrow> (c, Some err)
              | Inr b2 \<Rightarrow>
                  (case WriteUint64LE b2 startHeight of
                     Inl err \<Rightarrow> (c, Some err)
                   | Inr b3 \<Rightarrow> (bus_send c NewProvisionerTopic b3, None))))"

definition propagateBidList :: "'db Chain \<Rightarrow> 'db Chain" where
  "propagateBidList c = bus_send c BidListTopic (concat (bidList c))"

definition addBidder :: "'db chain_env \<Rightarrow> 'db Chain \<Rightarrow> Transaction \<Rightarrow> 'db Chain" where
  "addBidder env c tx =
     (let totalAmount = getTxTotalOutputAmount tx;
          x = CalculateX env totalAmount (M tx)
      in propagateBidList (c\<lparr>bidList := bidList c @ [x]\<rparr>))"

fun addConsensusNodes :: "'db chain_env \<Rightarrow> 'db Chain \<Rightarrow> Transaction list \<Rightarrow> u64 \<Rightarrow> 'db Chain" where
  "addConsensusNodes env c [] provisionerStartHeight = c"
| "addConsensusNodes env c (StakeTx ed bls outs # txs) provisionerStartHeight =
     addConsensusNodes env (fst (addProvisioner c (StakeTx ed bls outs) provisionerStartHeight))
       txs provisionerStartHeight"
| "addConsensusNodes env c (BidTx m outs # txs) provisionerStartHeight =
     addConsensusNodes env (addBidder env c (BidTx m outs)) txs provisionerStartHeight"
| "addConsensusNodes env c (OtherTx outs # txs) provisionerStartHeight =
     addConsensusNodes env c txs provisionerStartHeight"

text \<open>\<open>advertiseBlock\<close>: a failing encoding of the inventory message is a panic.\<close>

definition advertiseBlock ::
  "'db chain_env \<Rightarrow> 'db Chain \<Rightarrow> Block \<Rightarrow> go_panic + ('db Chain \<times> go_error option)" where
  "advertiseBlock env c b =
     (case EncodeInv env (Hash (blk_Header b)) of
        Inl err \<Rightarrow> Inl ErrorPanic
      | Inr buf \<Rightarrow>
          (case chain_AddTopic env buf InvTopic of
             Inl err \<Rightarrow> Inr (c, Some err)
           | Inr withTopic \<Rightarrow> Inr (bus_send c GossipStream withTopic, None)))"

text \<open>
  \<open>AcceptBlock\<close>, step by step as in the source: verification, consensus nodes, the
  store, the new tip, the notification, the advertisement, the cleanup of candidate
  blocks, whose failure is only logged.
\<close>

definition AcceptBlock ::
  "'db chain_env \<Rightarrow> 'db Chain \<Rightarrow> Block \<Rightarrow> go_panic + ('db Chain \<times> go_error option)" where
  "AcceptBlock env c blk =
     (case CheckBlock env (db c) (prevBlock c) blk of
        Some err \<Rightarrow> Inr (c, Some err)
      | None \<Rightarrow>
          (let c1 = addConsensusNodes env c (Txs blk) (Height (blk_Header blk) + 1)
           in case StoreBlock env (db c1) blk of
                Inl err \<Rightarrow> Inr (c1, Some err)
              | Inr db1 \<Rightarrow>
                  (let c2 = c1\<lparr>db := db1, prevBlock := blk\<rparr>
                   in case EncodeBlock env blk of
                        Inl err \<Rightarrow> Inr (c2, Some err)
                      | Inr buf \<Rightarrow>
                          (let c3 = bus_send c2 AcceptedBlock buf
                           in case advertiseBlock env c3 blk of
                                Inl p \<Rightarrow> Inl p
                              | Inr (c4, Some err) \<Rightarrow> Inr (c4, Some err)
                              | Inr (c4, None) \<Rightarrow>
                                  (case DeleteCandidateBlocks env (db c4) (Height (blk_Header blk)) of
                                     Inl err \<Rightarrow> Inr (c4, None)
                                   | Inr (count, db2) \<Rightarrow> Inr (c4\<lparr>db := db2\<rparr>, None))))))"

definition handleCandidateBlock :: "'db chain_env \<Rightarrow> 'db Chain \<Rightarrow> Block \<Rightarrow> 'db Chain \<times> go_error option" where
  "handleCandidateBlock env c candidate =
     (case CheckBlock env (db c) (prevBlock c) candidate of
        Some err \<Rightarrow> (c, Some err)
      | None \<Rightarrow>
          (case StoreCandidateBlock env (db c) candidate of
             Inl err \<Rightarrow> (c, Some err)
           | Inr db1 \<Rightarrow> (c\<lparr>db := db1\<rparr>, None)))"

definition handleWinningHash ::
  "'db chain_env \<Rightarrow> 'db Chain \<Rightarrow> bytes \<Rightarrow> go_panic + ('db Chain \<times> go_error option)" where
  "handleWinningHash env c blockHash =
     (case FetchCandidateBlock env (db c) blockHash of
        Inl err \<Rightarrow> Inr (c, Some err)
      | Inr candidate \<Rightarrow> AcceptBlock env c candidate)"

subsection \<open>Candidate validation\<close>

text \<open>
  \<open>Decode\<close> of the candidate and the block's \<open>SetHash\<close> and \<open>SetRoot\<close> are outside the
  sources: \<open>hashOf\<close> is the hash \<open>SetHash\<close> computes from the header and stores in it,
  \<open>rootOf\<close> the Merkle root \<open>SetRoot\<close> computes over the transactions and stores.
\<close>

record Candidate =
  cm_Block :: Block
  cm_Certificate :: bytes

record validator_env =
  Decode :: "bytes \<Rightarrow> go_error + Candidate"
  hashOf :: "BlockHeader \<Rightarrow> go_error + bytes"
  rootOf :: "Transaction list \<Rightarrow> go_error + bytes"

text \<open>
  \<open>make([]byte, 32)\<close> followed by \<open>copy\<close>: the first 32 bytes of the source, padded
  with zeros when it is shorter.
\<close>

definition copy32 :: "bytes \<Rightarrow> bytes" where
  "copy32 src = take 32 src @ replicate (32 - length src) 0"

definition SetHash :: "validator_env \<Rightarrow> Block \<Rightarrow> go_error + Block" where
  "SetHash env blk =
     (case hashOf env (blk_Header blk) of
        Inl err \<Rightarrow> Inl err
      | Inr h \<Rightarrow> Inr (blk\<lparr>blk_Header := (blk_Header blk)\<lparr>Hash := h\<rparr>\<rparr>))"

definition SetRoot :: "validator_env \<Rightarrow> Block \<Rightarrow> go_error + Block" where
  "SetRoot env blk =
     (case rootOf env (Txs blk) of
        Inl err \<Rightarrow> Inl err
      | Inr rt \<Rightarrow> Inr (blk\<lparr>blk_Header := (blk_Header blk)\<lparr>TxRoot := rt\<rparr>\<rparr>))"

text \<open>
  \<open>checkHash\<close> and \<open>checkRoot\<close> work on the block through a pointer; they give the
  block as they leave it and the error, \<open>None\<close> for \<open>nil\<close>.
\<close>

definition checkHash :: "validator_env \<Rightarrow> Block \<Rightarrow> Block \<times> go_error option" where
  "checkHash env blk =
     (let hash = copy32 (Hash (blk_Header blk))
      in case SetHash env blk of
           Inl err \<Rightarrow> (blk, Some err)
         | Inr blk' \<Rightarrow>
             if hash \<noteq> Hash (blk_Header blk') then (blk', Some ''invalid block hash'')
             else (blk', None))"

definition checkRoot :: "validator_env \<Rightarrow> Block \<Rightarrow> Block \<times> go_error option" where
  "checkRoot env blk =
     (let root = copy32 (TxRoot (blk_Header blk))
      in case SetRoot env blk of
           Inl err \<Rightarrow> (blk, Some err)
         | Inr blk' \<Rightarrow>
             if root \<noteq> TxRoot (blk_Header blk') then (blk', Some ''invalid merkle root hash'')
             else (blk', None))"

definition Validate :: "validator_env \<Rightarrow> bytes \<Rightarrow> go_error option" where
  "Validate env b =
     (case Decode env b of
        Inl err \<Rightarrow> Some err
      | Inr cm \<Rightarrow>
          (case checkHash env (cm_Block cm) of
             (blk, Some err) \<Rightarrow> Some err
           | (blk, None) \<Rightarrow> snd (checkRoot env blk)))"

subsection \<open>A concrete database, chain environment and validator environment\<close>

text \<open>
  The database is the list of stored blocks. Storing a block of height 99 fails, and so
  does every cleanup of candidate blocks; everything else succeeds.
\<close>

definition demo_chain_env :: "Block list chain_env" where
  "demo_chain_env =
     \<lparr>CheckBlock = (\<lambda>d prev blk. None),
      StoreBlock = (\<lambda>d blk. if Height (blk_Header blk) = 99 then Inl ''no space left on device''
                              else Inr (d @ [blk])),
      StoreCandidateBlock = (\<lambda>d blk. Inr d),
      FetchCandidateBlock = (\<lambda>d h. Inl ''candidate not found''),
      DeleteCandidateBlocks = (\<lambda>d h. Inl ''transaction failed''),
      EncodeBlock = (\<lambda>blk. Inr (Hash (blk_Header blk))),
      EncodeInv = (\<lambda>h. Inr h),
      chain_AddTopic = (\<lambda>buf t. Inr (0x0b # buf)),
      CalculateX = (\<lambda>d m. m)\<rparr>"

definition block_at :: "u64 \<Rightarrow> Block" where
  "block_at h =
     \<lparr>blk_Header =
        \<lparr>Version = 0, Height = h, Timestamp = 0, PrevHash = [], Seed = [], TxRoot = [],
         Hash = [ucast h], Certificate = []\<rparr>,
      Txs = [BidTx [0x0d] [[5]], OtherTx []]\<rparr>"

definition chain_0 :: "Block list Chain" where
  "chain_0 = \<lparr>prevBlock = block_at 1, bidList = [], db = [block_at 1], eventBus = []\<rparr>"

text \<open>
  A candidate buffer of 65 bytes: the header's hash, its transaction root, and one
  byte of transaction data. The hash of a header is 32 times its version plus one, the
  root of a transaction list 32 times the sum of the transactions' first output bytes.
\<close>

definition tx_byte :: "Transaction \<Rightarrow> byte" where
  "tx_byte tx = (case Outputs tx of (b # bs) # outs \<Rightarrow> b | _ \<Rightarrow> 0)"

definition demo_validator_env :: validator_env where
  "demo_validator_env =
     \<lparr>Decode =
        (\<lambda>b. if length b = 65
              then Inr \<lparr>cm_Block =
                          \<lparr>blk_Header =
                             \<lparr>Version = 0, Height = 2, Timestamp = 0, PrevHash = [], Seed = [],
                              TxRoot = take 32 (drop 32 b), Hash = take 32 b, Certificate = []\<rparr>,
                           Txs = [OtherTx [drop 64 b]]\<rparr>,
                        cm_Certificate = []\<rparr>
              else Inl ''unexpected EOF''),
      hashOf = (\<lambda>hdr. Inr (replicate 32 (Version hdr + 1))),
      rootOf = (\<lambda>txs. Inr (replicate 32 (sum_list (map tx_byte txs))))\<rparr>"

definition candidate_buffer :: "byte \<Rightarrow> byte \<Rightarrow> byte \<Rightarrow> bytes" where
  "candidate_buffer h r t = replicate 32 h @ replicate 32 r @ [t]"

text \<open>The candidate that the buffer \<open>candidate_buffer h r t\<close> decodes to.\<close>

definition candidate_of :: "byte \<Rightarrow> byte \<Rightarrow> byte \<Rightarrow> Candidate" where
  "candidate_of h r t =
     \<lparr>cm_Block =
        \<lparr>blk_Header =
           \<lparr>Version = 0, Height = 2, Timestamp = 0, PrevHash = [], Seed = [],
            TxRoot = replicate 32 r, Hash = replicate 32 h, Certificate = []\<rparr>,
         Txs = [OtherTx [[t]]]\<rparr>,
      cm_Certificate = []\<rparr>"

section \<open>The sync manager in headers-first mode (package syncmgr)\<close>

text \<open>
  The sync manager keeps its mode, the slice \<open>headers\<close> of header hashes still to be
  asked for, and the block requests in flight, keyed by the hash in hexadecimal. A
  \<open>nil\<close> entry of \<open>[][]byte\<close> is the empty byte slice. The peer manager and the chain
  are outside the sources: their answers are parameters, and the peers disconnected are
  kept as a trace. A headers message is the list of its headers.
\<close>

type_synonym peer = nat

record sync_env =
  ValidateHeaders :: "BlockHeader list \<Rightarrow> go_error option"
  AddHeaders :: "BlockHeader list \<Rightarrow> go_error option"
  RequestBlocks :: "bytes list \<Rightarrow> go_error + peer"
  RequestHeaders :: "bytes \<Rightarrow> go_error option"

record Syncmgr =
  Mode :: int
  headers :: "bytes list"
  inflightBlockReqs :: "string \<rightharpoonup> peer"
  disconnected :: "peer list"

definition maxBlockRequestPerPeer :: nat where
  "maxBlockRequestPerPeer = 16"

definition RequestMoreBlocks :: "sync_env \<Rightarrow> Syncmgr \<Rightarrow> Syncmgr \<times> go_error option" where
  "RequestMoreBlocks env s =
     (let reqAmount = (if length (headers s) \<ge> maxBlockRequestPerPeer
                       then maxBlockRequestPerPeer else length (headers s));
          blockReq = take reqAmount (headers s)
      in case RequestBlocks env blockReq of
           Inl err \<Rightarrow> (s, Some err)
         | Inr p \<Rightarrow>
             (s\<lparr>inflightBlockReqs :=
                   foldl (\<lambda>m hash. m(EncodeToString hash \<mapsto> p)) (inflightBlockReqs s) (headers s),
                 headers := drop reqAmount (headers s)\<rparr>, None))"

text \<open>
  \<open>HeadersFirstMode\<close>. \<open>make([][]byte, len(msg.Headers))\<close> gives a slice that already
  has one \<open>nil\<close> entry per header; the loop appends the hashes after them. The last
  statement indexes the last header, which panics on a message without headers.
\<close>

definition HeadersFirstMode ::
  "sync_env \<Rightarrow> Syncmgr \<Rightarrow> peer \<Rightarrow> BlockHeader list \<Rightarrow> go_panic + (Syncmgr \<times> go_error option)" where
  "HeadersFirstMode env s p msg =
     (case ValidateHeaders env msg of
        Some err \<Rightarrow> Inr (s\<lparr>disconnected := disconnected s @ [p]\<rparr>, Some err)
      | None \<Rightarrow>
          (case AddHeaders env msg of
             Some err \<Rightarrow> Inr (s, Some err)
           | None \<Rightarrow>
               (let hashes0 = replicate (length msg) ([] :: bytes);
                    hashes = foldl (\<lambda>hashes header. hashes @ [Hash header]) hashes0 msg;
                    s1 = s\<lparr>headers := headers s @ hashes\<rparr>
                in if length msg = 2000 then Inr (RequestMoreBlocks env (s1\<lparr>Mode := 2\<rparr>))
                   else if msg = [] then Inl IndexOutOfRange
                   else Inr (s1, RequestHeaders env (Hash (last msg))))))"

definition OnHeaders :: "sync_env \<Rightarrow> Syncmgr \<Rightarrow> peer \<Rightarrow> BlockHeader list \<Rightarrow> go_panic + Syncmgr" where
  "OnHeaders env s p msg =
     (if length msg < 1 then Inr s
      else if Mode s = 1 then
        (case HeadersFirstMode env s p msg of
           Inl pn \<Rightarrow> Inl pn
         | Inr (s', err) \<Rightarrow> Inr s')
      else Inr s)"

subsection \<open>A concrete sync manager\<close>

definition sync_env_ok :: sync_env where
  "sync_env_ok =
     \<lparr>ValidateHeaders = (\<lambda>msg. None), AddHeaders = (\<lambda>msg. None),
      RequestBlocks = (\<lambda>hashes. Inr 1), RequestHeaders = (\<lambda>hash. None)\<rparr>"

definition header_with_hash :: "bytes \<Rightarrow> BlockHeader" where
  "header_with_hash h =
     \<lparr>Version = 0, Height = 1, Timestamp = 0, PrevHash = [], Seed = [], TxRoot = [],
      Hash = h, Certificate = []\<rparr>"

definition syncmgr_0 :: Syncmgr where
  "syncmgr_0 = \<lparr>Mode = 1, headers = [], inflightBlockReqs = Map.empty, disconnected = []\<rparr>"

section \<open>Properties of the CompactSize codec\<close>

lemma leDecode_leEncode:
  "(leDecode (leEncode n v) :: 'a::len word) = take_bit (8 * n) (v :: 'a word)"
proof (induction n arbitrary: v)
  case 0
  then show ?case by simp
next
  case (Suc n)
  show ?case
    apply (simp add: Suc)
    apply (rule bit_word_eqI)
    apply (auto simp: bit_simps)
    done
qed

lemma length_leEncode: "length (leEncode n v) = n"
  by (induction n arbitrary: v) auto

lemma bit_byte_bound: "bit (b :: 8 word) n \<Longrightarrow> n < 8"
  using bit_imp_le_length [of b n] by simp

lemma leDecode_bit_bound:
  "bit (leDecode bs :: 'a::len word) n \<Longrightarrow> n < 8 * length bs"
proof (induction bs arbitrary: n)
  case Nil
  then show ?case by simp
next
  case (Cons b bs)
  from Cons.prems have "bit b n \<or> (8 \<le> n \<and> bit (leDecode bs :: 'a word) (n - 8))"
    by (auto simp: bit_simps)
  then show ?case
  proof
    assume "bit b n"
    then show ?thesis using bit_byte_bound by fastforce
  next
    assume h: "8 \<le> n \<and> bit (leDecode bs :: 'a word) (n - 8)"
    then have "n - 8 < 8 * length bs" using Cons.IH by blast
    with h show ?thesis by simp
  qed
qed

lemma leEncode_leDecode:
  "8 * length bs \<le> LENGTH('a::len) \<Longrightarrow> leEncode (length bs) (leDecode bs :: 'a word) = bs"
proof (induction bs)
  case Nil
  then show ?case by simp
next
  case (Cons b bs)
  have a: "(ucast (or (ucast b) (push_bit 8 (leDecode bs :: 'a word)) :: 'a word) :: 8 word) = b"
    apply (rule bit_word_eqI)
    using Cons.prems
    apply (auto simp: bit_simps)
    done
  have b: "drop_bit 8 (or (ucast b) (push_bit 8 (leDecode bs :: 'a word)) :: 'a word) = leDecode bs"
    apply (rule bit_word_eqI)
    using Cons.prems
    apply (auto simp: bit_simps dest: bit_byte_bound leDecode_bit_bound)
    done
  show ?case using Cons a b by simp
qed

lemma readLE_leEncode:
  "0 < n \<Longrightarrow> (readLE n (leEncode n (x :: 'a::len word) @ rest) :: enc_error + ('a word \<times> bytes))
     = Inr (take_bit (8 * n) x, rest)"
proof -
  assume n: "0 < n"
  let ?r = "leEncode n x @ rest"
  have 1: "take n ?r = leEncode n x" and 2: "drop n ?r = rest" and 3: "length ?r \<ge> n"
    by (simp_all add: length_leEncode)
  have 4: "?r \<noteq> []" using n 3 by auto
  show ?thesis
    unfolding readLE_def 1 2 leDecode_leEncode using 3 4 by simp
qed

lemma unat_narrow: "unat (ucast (w :: 'a::len word) :: 'b::len word) = unat w mod 2 ^ LENGTH('b)"
  by (simp add: unsigned_ucast_eq take_bit_eq_mod)

lemma narrow16: "v \<le> 0xffff \<Longrightarrow> (ucast (ucast (v :: u64) :: u16) :: u64) = v"
  by (simp add: word_le_nat_alt word_unat_eq_iff unat_narrow)

lemma narrow32: "v \<le> 0xffffffff \<Longrightarrow> (ucast (ucast (v :: u64) :: u32) :: u64) = v"
  by (simp add: word_le_nat_alt word_unat_eq_iff unat_narrow)

lemma narrow8: "v < 0xfd \<Longrightarrow> (ucast (ucast (v :: u64) :: u8) :: u64) = v"
  by (simp add: word_less_nat_alt word_unat_eq_iff unat_narrow)

lemma narrow8_lt: "v < 0xfd \<Longrightarrow> (ucast (v :: u64) :: u8) < 0xfd"
  by (simp add: word_less_nat_alt unat_narrow)

lemma widen_lt8: "((ucast (d :: u8) :: u64) < 0xfd) = (d < 0xfd)"
  using unsigned_less [of d, where 'a=nat] by (simp add: word_less_nat_alt unat_narrow)

lemma widen_lt16: "((ucast (d :: u16) :: u64) < 0xfd) = (d < 0xfd)"
  using unsigned_less [of d, where 'a=nat] by (simp add: word_less_nat_alt unat_narrow)

lemma widen_lt32: "((ucast (d :: u32) :: u64) < 0x10000) = (d < 0x10000)"
  using unsigned_less [of d, where 'a=nat] by (simp add: word_less_nat_alt unat_narrow)

lemma narrow16_lt: "v \<le> 0xffff \<Longrightarrow> ((ucast (v :: u64) :: u16) < 0xfd) = (v < 0xfd)"
  by (simp add: word_less_nat_alt word_le_nat_alt unat_narrow)

lemma narrow32_lt: "v \<le> 0xffffffff \<Longrightarrow> ((ucast (v :: u64) :: u32) < 0x10000) = (v < 0x10000)"
  by (simp add: word_less_nat_alt word_le_nat_alt unat_narrow)

lemma widen_narrow16: "(ucast (ucast (x :: u16) :: u64) :: u16) = x"
  using unsigned_less [of x, where 'a=nat] by (simp add: word_unat_eq_iff unat_narrow)

lemma widen_narrow32: "(ucast (ucast (x :: u32) :: u64) :: u32) = x"
  using unsigned_less [of x, where 'a=nat] by (simp add: word_unat_eq_iff unat_narrow)

lemma widen_narrow8: "(ucast (ucast (x :: u8) :: u64) :: u8) = x"
  using unsigned_less [of x, where 'a=nat] by (simp add: word_unat_eq_iff unat_narrow)

lemma widen_le16: "(ucast (x :: u16) :: u64) \<le> 0xffff"
  using unsigned_less [of x, where 'a=nat] by (simp add: word_le_nat_alt unat_narrow)

lemma widen_le32: "(ucast (x :: u32) :: u64) \<le> 0xffffffff"
  using unsigned_less [of x, where 'a=nat] by (simp add: word_le_nat_alt unat_narrow)

lemma take_bit_full16: "take_bit 16 (x :: u16) = x"
  by (simp add: take_bit_word_eq_self)

lemma take_bit_full32: "take_bit 32 (x :: u32) = x"
  by (simp add: take_bit_word_eq_self)

lemma take_bit_full64: "take_bit 64 (x :: u64) = x"
  by (simp add: take_bit_word_eq_self)

lemma ReadUint8_Cons: "ReadUint8 (b # r) = Inr (b, r)"
  by (simp add: ReadUint8_def readLE_def)

lemma ReadUint8_Inr: "ReadUint8 r = Inr (d, r1) \<Longrightarrow> r = d # r1"
  by (cases r) (simp_all add: ReadUint8_def readLE_def)

lemma readLE_Inr:
  assumes "(readLE n r :: enc_error + ('a::len word \<times> bytes)) = Inr (x, r2)"
    and "8 * n \<le> LENGTH('a)"
  shows "r = leEncode n x @ r2"
proof -
  from assms(1) have len: "n \<le> length r" and x: "x = leDecode (take n r)" and r2: "r2 = drop n r"
    by (auto simp: readLE_def split: if_splits)
  have "length (take n r) = n" using len by simp
  then have "leEncode n (leDecode (take n r) :: 'a word) = take n r"
    using leEncode_leDecode [of "take n r", where 'a='a] assms(2) by simp
  then show ?thesis using x r2 by simp
qed

lemma WriteVarInt_compactSize: "WriteVarInt w v = Inr (w @ compactSize v)"
  by (simp add: WriteVarInt_def compactSize_def WriteUint8_def WriteUint16LE_def
      WriteUint32LE_def WriteUint64LE_def)

lemma ReadVarInt_compactSize: "ReadVarInt (compactSize v @ rest) = Inr (v, rest)"
proof -
  consider (a) "v < 0xfd" | (b) "\<not> v < 0xfd" "v \<le> 0xffff"
    | (c) "\<not> v \<le> 0xffff" "v \<le> 0xffffffff" | (d) "\<not> v \<le> 0xffffffff"
    by blast
  then show ?thesis
  proof cases
    case a
    have "(ucast v :: u8) < 0xfd" using a by (rule narrow8_lt)
    then have "(ucast v :: u8) \<noteq> 0xff" "(ucast v :: u8) \<noteq> 0xfe" "(ucast v :: u8) \<noteq> 0xfd"
      by auto
    then show ?thesis using a
      by (simp add: compactSize_def ReadVarInt_def ReadUint8_Cons narrow8)
  next
    case b
    have r: "ReadUint16LE (leEncode 2 (ucast v :: u16) @ rest) = Inr (ucast v, rest)"
      unfolding ReadUint16LE_def by (subst readLE_leEncode) (simp_all add: take_bit_full16)
    show ?thesis using b
      by (simp add: compactSize_def ReadVarInt_def ReadUint8_Cons r narrow16 Let_def)
  next
    case c
    have a: "\<not> v < 0xfd" "\<not> v < 0x10000" using c(1) by (simp_all add: word_less_nat_alt word_le_nat_alt)
    have r: "ReadUint32LE (leEncode 4 (ucast v :: u32) @ rest) = Inr (ucast v, rest)"
      unfolding ReadUint32LE_def by (subst readLE_leEncode) (simp_all add: take_bit_full32)
    show ?thesis using c a
      by (simp add: compactSize_def ReadVarInt_def ReadUint8_Cons r narrow32 Let_def)
  next
    case d
    have a: "\<not> v < 0xfd" "\<not> v \<le> 0xffff" "\<not> v < 0x100000000"
      using d by (simp_all add: word_less_nat_alt word_le_nat_alt)
    have r: "ReadUint64LE (leEncode 8 v @ rest) = Inr (v, rest)"
      unfolding ReadUint64LE_def by (subst readLE_leEncode) (simp_all add: take_bit_full64)
    show ?thesis using d a
      by (simp add: compactSize_def ReadVarInt_def ReadUint8_Cons r)
  qed
qed

lemma ReadVarInt_canonical:
  assumes "ReadVarInt bs = Inr (v, rest)"
  shows "bs = compactSize v @ rest"
proof -
  from assms obtain d r1 where d: "ReadUint8 bs = Inr (d, r1)"
    by (auto simp: ReadVarInt_def split: sum.splits)
  then have bs: "bs = d # r1" by (rule ReadUint8_Inr)
  have "unat d = 255 \<or> unat d = 254 \<or> unat d = 253 \<or> unat d < 253"
    using unsigned_less [of d, where 'a=nat] by simp arith
  then consider (ff) "d = 0xff" | (fe) "d = 0xfe" | (fd) "d = 0xfd" | (small) "d < 0xfd"
    by (auto simp: word_less_nat_alt word_unat_eq_iff)
  then show ?thesis
  proof cases
    case ff
    with assms d obtain r where r: "ReadUint64LE r1 = Inr (v, rest)" and c: "\<not> v < 0x100000000"
      by (auto simp: ReadVarInt_def split: sum.splits if_splits)
    have "r1 = leEncode 8 v @ rest"
      using r unfolding ReadUint64LE_def by (rule readLE_Inr) simp
    moreover have "\<not> v < 0xfd" "\<not> v \<le> 0xffff" "\<not> v \<le> 0xffffffff"
      using c by (simp_all add: word_less_nat_alt word_le_nat_alt)
    ultimately show ?thesis using bs ff by (simp add: compactSize_def)
  next
    case fe
    with assms d obtain x where r: "ReadUint32LE r1 = Inr (x, rest)" and v: "v = ucast x"
      and c: "\<not> v < 0x10000"
      by (auto simp: ReadVarInt_def Let_def split: sum.splits if_splits)
    have "r1 = leEncode 4 x @ rest"
      using r unfolding ReadUint32LE_def by (rule readLE_Inr) simp
    moreover have "\<not> v < 0xfd" "\<not> v \<le> 0xffff"
      using c by (simp_all add: word_less_nat_alt word_le_nat_alt)
    moreover have "v \<le> 0xffffffff" unfolding v by (rule widen_le32)
    ultimately show ?thesis using bs fe v by (simp add: compactSize_def widen_narrow32)
  next
    case fd
    with assms d obtain x where r: "ReadUint16LE r1 = Inr (x, rest)" and v: "v = ucast x"
      and c: "\<not> v < 0xfd"
      by (auto simp: ReadVarInt_def Let_def split: sum.splits if_splits)
    have "r1 = leEncode 2 x @ rest"
      using r unfolding ReadUint16LE_def by (rule readLE_Inr) simp
    moreover have "v \<le> 0xffff" unfolding v by (rule widen_le16)
    ultimately show ?thesis using bs fd v c by (simp add: compactSize_def widen_narrow16)
  next
    case small
    then have ne: "d \<noteq> 0xff" "d \<noteq> 0xfe" "d \<noteq> 0xfd" by auto
    with assms d have v: "v = ucast d" and rest: "rest = r1"
      by (auto simp: ReadVarInt_def)
    have "v < 0xfd" unfolding v using small by (simp add: widen_lt8)
    then show ?thesis using bs v rest by (simp add: compactSize_def widen_narrow8)
  qed
qed

lemma ReadVarInt_reject16:
  "x < 0xfd \<Longrightarrow> ReadVarInt (0xfd # leEncode 2 (x :: u16) @ rest) = Inl NonCanonical"
proof -
  assume x: "x < 0xfd"
  have r: "ReadUint16LE (leEncode 2 x @ rest) = Inr (x, rest)"
    unfolding ReadUint16LE_def by (subst readLE_leEncode) (simp_all add: take_bit_full16)
  show ?thesis using x
    by (simp add: ReadVarInt_def ReadUint8_Cons r Let_def widen_lt16)
qed

lemma ReadVarInt_reject32:
  "x < 0x10000 \<Longrightarrow> ReadVarInt (0xfe # leEncode 4 (x :: u32) @ rest) = Inl NonCanonical"
proof -
  assume x: "x < 0x10000"
  have r: "ReadUint32LE (leEncode 4 x @ rest) = Inr (x, rest)"
    unfolding ReadUint32LE_def by (subst readLE_leEncode) (simp_all add: take_bit_full32)
  show ?thesis using x
    by (simp add: ReadVarInt_def ReadUint8_Cons r Let_def widen_lt32)
qed

lemma ReadVarInt_reject64:
  "x < 0x100000000 \<Longrightarrow> ReadVarInt (0xff # leEncode 8 (x :: u64) @ rest) = Inl NonCanonical"
proof -
  assume x: "x < 0x100000000"
  have r: "ReadUint64LE (leEncode 8 x @ rest) = Inr (x, rest)"
    unfolding ReadUint64LE_def by (subst readLE_leEncode) (simp_all add: take_bit_full64)
  show ?thesis using x
    by (simp add: ReadVarInt_def ReadUint8_Cons r)
qed

text \<open>
  Claim C7. Every \<open>v\<close> of type \<open>uint64\<close> written by \<open>WriteVarInt\<close> to an empty
  buffer is read back by \<open>ReadVarInt\<close> as \<open>v\<close>, the buffer exhausted. It is written in the form
  the spec gives (one byte below \<open>0xfd\<close>, \<open>0xfd\<close> and two bytes up to \<open>0xffff\<close>,
  \<open>0xfe\<close> and four bytes up to \<open>0xffffffff\<close>, \<open>0xff\<close> and eight bytes otherwise),
  and \<open>ReadVarInt\<close> reads it back as \<open>v\<close>, leaving the bytes that follow. Whatever
  \<open>ReadVarInt\<close> accepts is the form \<open>WriteVarInt\<close> writes for the value returned, so
  an encoding of a value in a wider form than it needs is never accepted; each of the
  three wide forms holding a value that fits a narrower one is answered by the
  non-canonical error.
\<close>

theorem varint_roundtrip_and_canonical:
  "(\<exists>bs. WriteVarInt [] v = Inr bs \<and> ReadVarInt bs = Inr (v, []))
   \<and> WriteVarInt w v = Inr (w @ compactSize v)
   \<and> ReadVarInt (compactSize v @ rest) = Inr (v, rest)
   \<and> (ReadVarInt bs' = Inr (x, r) \<longrightarrow> bs' = compactSize x @ r)
   \<and> (a < 0xfd \<longrightarrow> ReadVarInt (0xfd # leEncode 2 (a :: u16) @ rest) = Inl NonCanonical)
   \<and> (b < 0x10000 \<longrightarrow> ReadVarInt (0xfe # leEncode 4 (b :: u32) @ rest) = Inl NonCanonical)
   \<and> (c < 0x100000000 \<longrightarrow> ReadVarInt (0xff # leEncode 8 (c :: u64) @ rest) = Inl NonCanonical)"
proof -
  have "\<exists>bs. WriteVarInt [] v = Inr bs \<and> ReadVarInt bs = Inr (v, [])"
    using WriteVarInt_compactSize [of "[]" v] ReadVarInt_compactSize [of v "[]"] by simp
  then show ?thesis
    using WriteVarInt_compactSize ReadVarInt_compactSize ReadVarInt_canonical
      ReadVarInt_reject16 ReadVarInt_reject32 ReadVarInt_reject64
    by blast
qed

lemma leEncode_2: "leEncode 2 v = [ucast v, ucast (drop_bit 8 v)]"
  by (simp add: numeral_2_eq_2)

lemma leEncode_4:
  "leEncode 4 v = [ucast v, ucast (drop_bit 8 v), ucast (drop_bit 16 v), ucast (drop_bit 24 v)]"
  by (simp add: numeral_Bit0 [of "Num.Bit0 Num.One"] numeral_2_eq_2 drop_bit_drop_bit)

theorem varint_roundtrip_and_canonical_witness:
  "WriteVarInt [7] 0x12c = Inr [7, 0xfd, 0x2c, 0x01]
   \<and> ReadVarInt [0xfd, 0x2c, 0x01, 9] = Inr (0x12c, [9])
   \<and> ReadVarInt [0xfc] = Inr (0xfc, []) \<and> [0xfc] = compactSize 0xfc @ []
   \<and> (5 :: u16) < 0xfd \<and> ReadVarInt [0xfd, 5, 0, 9] = Inl NonCanonical
   \<and> (5 :: u32) < 0x10000 \<and> ReadVarInt [0xfe, 5, 0, 0, 0, 9] = Inl NonCanonical"
proof -
  have cs: "compactSize 0x12c = [0xfd, 0x2c, 0x01]" "compactSize 0xfc = [0xfc]"
    by (simp_all add: compactSize_def leEncode_2)
  have rd: "ReadVarInt [0xfc] = Inr (0xfc, [])"
    by (simp add: ReadVarInt_def ReadUint8_Cons)
  have e2: "leEncode 2 (5 :: u16) = [5, 0]" by (simp add: leEncode_2)
  have e4: "leEncode 4 (5 :: u32) = [5, 0, 0, 0]" by (simp add: leEncode_4)
  show ?thesis
    using varint_roundtrip_and_canonical
      [where w = "[7]" and v = "0x12c" and rest = "[9]" and bs' = "[0xfc]" and x = "0xfc"
         and r = "[]" and a = 5 and b = 5 and c = 0]
    by (simp add: cs rd e2 e4)
qed

section \<open>Properties of the agreement store\<close>

















section \<open>When the reducer publishes an agreement\<close>

lemma agreements_simps:
  "agreements (IncrementStep r) = agreements r"
  "agreements (ReportAbsentees r) = agreements r"
  "agreements (publishRegeneration r) = agreements r"
  "agreements (Publish r Gossip (Framed AgreementTopic m)) = agreements r @ [(Gossip, Framed AgreementTopic m)]"
  "agreements (Publish r Gossip (Framed ReductionTopic m)) = agreements r"
  by (simp_all add: agreements_def IncrementStep_def ReportAbsentees_def publishRegeneration_def
        Publish_def isAgreement_def Let_def)

lemma agreements_sendReduction: "agreements (sendReduction env r h) = agreements r"
  by (simp add: sendReduction_def Let_def agreements_simps split: sum.splits)

lemma state_simps:
  "state_Round (IncrementStep r) = state_Round r"
  "state_Step (IncrementStep r) = state_Step r + 1"
  "state_Round (ReportAbsentees r) = state_Round r"
  "state_Step (ReportAbsentees r) = state_Step r"
  "state_Round (Publish r t m) = state_Round r"
  "state_Step (Publish r t m) = state_Step r"
  "stale (IncrementStep r) = stale r"
  "stale (ReportAbsentees r) = stale r"
  "stale (Publish r t m) = stale r"
  by (simp_all add: IncrementStep_def ReportAbsentees_def Publish_def)

lemma state_sendReduction:
  "state_Round (sendReduction env r h) = state_Round r"
  "state_Step (sendReduction env r h) = state_Step r"
  "stale (sendReduction env r h) = stale r"
  by (simp_all add: sendReduction_def Let_def state_simps split: sum.splits)

lemma begin_first_live:
  assumes "begin_first env r f1 = Inr (hash1, r1)" and "\<not> stale r"
  shows "extractHash env (fetch f1) = Inr hash1 \<and> agreements r1 = agreements r
         \<and> state_Round r1 = state_Round r \<and> state_Step r1 = state_Step r + 1 \<and> \<not> stale r1"
  using assms
  by (auto simp: begin_first_def Let_def agreements_simps agreements_sendReduction
        state_simps state_sendReduction split: sum.splits if_splits)

lemma agreementMessage_state:
  "state_Round r1 = state_Round r2 \<Longrightarrow> state_Step r1 = state_Step r2 \<Longrightarrow>
     agreementMessage env r1 evs h = agreementMessage env r2 evs h"
  by (simp add: agreementMessage_def)

lemma sendAgreement_agreements:
  "sendAgreement env r evs h = Inr r2 \<Longrightarrow>
     agreements r2 = agreements r @
       (case agreementMessage env r evs h of
          Inr (Inr msg) \<Rightarrow> [(Gossip, Framed AgreementTopic msg)] | _ \<Rightarrow> [])"
  by (auto simp: sendAgreement_def agreements_simps split: sum.splits)

lemma begin_second_live:
  assumes run: "begin_second env r events hash1 f2 = Inr r'" and live: "\<not> stale r"
    and h2: "extractHash env (fetch f2) = Inr hash2"
  shows "agreements r' = agreements r @
           (if hash1 = hash2 \<and> hash1 \<noteq> zeroHash \<and> AmMember env (state_Round r) (state_Step r)
            then (case agreementMessage env r (slice_append events (fetch f2)) hash2 of
                    Inr (Inr msg) \<Rightarrow> [(Gossip, Framed AgreementTopic msg)] | _ \<Rightarrow> [])
            else [])"
proof -
  let ?r1 = "if fetch f2 = None then ReportAbsentees r else r"
  have r1: "state_Round ?r1 = state_Round r" "state_Step ?r1 = state_Step r"
    "agreements ?r1 = agreements r"
    by (simp_all add: state_simps agreements_simps)
  have am: "agreementMessage env ?r1 (slice_append events (fetch f2)) hash2
            = agreementMessage env r (slice_append events (fetch f2)) hash2"
    by (rule agreementMessage_state) (simp_all add: r1)
  have succ: "isReductionSuccessful hash1 hash2 = (hash1 = hash2 \<and> hash1 \<noteq> zeroHash)"
    by (auto simp: isReductionSuccessful_def Let_def)
  have inc: "inCommittee env ?r1 = AmMember env (state_Round r) (state_Step r)"
    unfolding inCommittee_def r1 ..
  show ?thesis
  proof (cases "hash1 = hash2 \<and> hash1 \<noteq> zeroHash \<and> AmMember env (state_Round r) (state_Step r)")
    case True
    with run live h2 succ inc obtain r2 where
      s: "sendAgreement env ?r1 (slice_append events (fetch f2)) hash2 = Inr r2"
      and r': "r' = publishRegeneration (IncrementStep r2)"
      by (auto simp: begin_second_def Let_def split: sum.splits if_splits)
    have "agreements r' = agreements r2" using r' by (simp add: agreements_simps)
    also have "\<dots> = agreements r @
        (case agreementMessage env r (slice_append events (fetch f2)) hash2 of
           Inr (Inr msg) \<Rightarrow> [(Gossip, Framed AgreementTopic msg)] | _ \<Rightarrow> [])"
      using sendAgreement_agreements [OF s] unfolding am r1 .
    finally show ?thesis unfolding if_P [OF True] .
  next
    case False
    with run live h2 succ inc have "r' = publishRegeneration (IncrementStep ?r1)"
      by (auto simp: begin_second_def Let_def split: sum.splits if_splits)
    then have "agreements r' = agreements r" using r1 by (simp add: agreements_simps)
    then show ?thesis unfolding if_not_P [OF False] by simp
  qed
qed

lemma begin_second_stale_agreements:
  "begin_second env r events hash1 f2 = Inr r' \<Longrightarrow> stale r \<Longrightarrow> agreements r' = agreements r"
  by (simp add: begin_second_def Let_def)

lemma reducer_begin_agreements:
  assumes run: "reducer_begin env r f1 f2 = Inr r'"
    and live: "\<not> stale r"
    and h2: "extractHash env (fetch f2) = Inr hash2"
  shows "\<exists>hash1. extractHash env (fetch f1) = Inr hash1 \<and>
         agreements r' = agreements r @
           (if hash1 = hash2 \<and> hash1 \<noteq> zeroHash
                \<and> AmMember env (state_Round r) (state_Step r + 1)
            then (case agreementMessage env (IncrementStep r)
                         (slice_append (fetch f1) (fetch f2)) hash2 of
                    Inr (Inr msg) \<Rightarrow> [(Gossip, Framed AgreementTopic msg)] | _ \<Rightarrow> [])
            else [])"
proof -
  from run obtain hash1 r1 where
    f: "begin_first env r f1 = Inr (hash1, r1)"
    and s: "begin_second env r1 (fetch f1) hash1 f2 = Inr r'"
    by (auto simp: reducer_begin_def split: sum.splits)
  note f1 = begin_first_live [OF f live]
  have am: "agreementMessage env r1 (slice_append (fetch f1) (fetch f2)) hash2
            = agreementMessage env (IncrementStep r) (slice_append (fetch f1) (fetch f2)) hash2"
    by (rule agreementMessage_state) (simp_all add: f1 state_simps)
  have live1: "\<not> stale r1" using f1 by simp
  have a: "agreements r1 = agreements r" and b: "state_Round r1 = state_Round r"
    and c: "state_Step r1 = state_Step r + 1" and d: "extractHash env (fetch f1) = Inr hash1"
    using f1 by simp_all
  have "agreements r' = agreements r @
           (if hash1 = hash2 \<and> hash1 \<noteq> zeroHash
                \<and> AmMember env (state_Round r) (state_Step r + 1)
            then (case agreementMessage env (IncrementStep r)
                         (slice_append (fetch f1) (fetch f2)) hash2 of
                    Inr (Inr msg) \<Rightarrow> [(Gossip, Framed AgreementTopic msg)] | _ \<Rightarrow> [])
            else [])"
    using begin_second_live [OF s live1 h2] unfolding a b c am .
  with d show ?thesis by blast
qed

text \<open>
  Claim C4, as amended. Take a run of \<open>begin\<close> that returns, on a reducer that is not
  stale, with first-step hash \<open>hash1\<close> and second-step hash \<open>hash2\<close>. The run hands
  one agreement, framed with the Agreement topic, to the publisher for gossip exactly
  when \<open>hash1 = hash2\<close>, \<open>hash1\<close> is not the 32 zero bytes, the node is a member of
  the committee at the step of the second reduction, and the steps of \<open>sendAgreement\<close>
  (\<open>Aggregate\<close>, the BLS signature, the marshalling, \<open>AddTopic\<close>) return no error;
  otherwise it publishes no agreement. In particular none is published when the two
  hashes differ or when either \<open>fetch\<close> gave the empty batch.
\<close>

theorem agreement_published_iff:
  assumes run: "reducer_begin env r f1 f2 = Inr r'"
    and live: "\<not> stale r"
    and h1: "extractHash env (fetch f1) = Inr hash1"
    and h2: "extractHash env (fetch f2) = Inr hash2"
  shows "((\<exists>msg. agreements r' = agreements r @ [(Gossip, Framed AgreementTopic msg)])
            \<longleftrightarrow>
          (hash1 = hash2 \<and> hash1 \<noteq> zeroHash
             \<and> AmMember env (state_Round r) (state_Step r + 1)
             \<and> (\<exists>msg. agreementMessage env (IncrementStep r)
                          (slice_append (fetch f1) (fetch f2)) hash2 = Inr (Inr msg))))
         \<and> ((\<forall>msg. agreements r' \<noteq> agreements r @ [(Gossip, Framed AgreementTopic msg)])
                \<longrightarrow> agreements r' = agreements r)
         \<and> (hash1 \<noteq> hash2 \<or> fetch f1 = None \<or> fetch f2 = None
                \<longrightarrow> agreements r' = agreements r)"
proof -
  let ?m = "agreementMessage env (IncrementStep r) (slice_append (fetch f1) (fetch f2)) hash2"
  let ?c = "hash1 = hash2 \<and> hash1 \<noteq> zeroHash \<and> AmMember env (state_Round r) (state_Step r + 1)"
  from reducer_begin_agreements [OF run live h2] obtain h where
    h: "extractHash env (fetch f1) = Inr h" and
    eq0: "agreements r' = agreements r @
      (if h = hash2 \<and> h \<noteq> zeroHash \<and> AmMember env (state_Round r) (state_Step r + 1)
       then (case ?m of Inr (Inr msg) \<Rightarrow> [(Gossip, Framed AgreementTopic msg)] | _ \<Rightarrow> [])
       else [])"
    by blast
  from h h1 have "h = hash1" by simp
  with eq0 have eq: "agreements r' = agreements r @
      (if ?c then (case ?m of Inr (Inr msg) \<Rightarrow> [(Gossip, Framed AgreementTopic msg)] | _ \<Rightarrow> [])
       else [])"
    by blast
  have z: "fetch f1 = None \<Longrightarrow> hash1 = zeroHash" using h1 by (simp add: extractHash_def)
  have z2: "fetch f2 = None \<Longrightarrow> hash2 = zeroHash" using h2 by (simp add: extractHash_def)
  show ?thesis
  proof (cases ?c)
    case True
    have eq': "agreements r' = agreements r @
        (case ?m of Inr (Inr msg) \<Rightarrow> [(Gossip, Framed AgreementTopic msg)] | _ \<Rightarrow> [])"
      using eq unfolding if_P [OF True] .
    have nz: "fetch f1 \<noteq> None" "fetch f2 \<noteq> None" using True z z2 by auto
    show ?thesis
    proof (cases ?m)
      case (Inl p)
      then have "agreements r' = agreements r" using eq' by simp
      then show ?thesis using True nz Inl by simp
    next
      case (Inr x)
      show ?thesis
      proof (cases x)
        case (Inl e)
        then have "agreements r' = agreements r" using eq' Inr by simp
        then show ?thesis using True nz Inr Inl by simp
      next
        case (Inr msg)
        then have "agreements r' = agreements r @ [(Gossip, Framed AgreementTopic msg)]"
          using eq' \<open>?m = Inr x\<close> by simp
        then show ?thesis using True nz Inr \<open>?m = Inr x\<close> by auto
      qed
    qed
  next
    case False
    have same: "agreements r' = agreements r"
      using eq unfolding if_not_P [OF False] by simp
    have "\<not> (hash1 = hash2 \<and> hash1 \<noteq> zeroHash
             \<and> AmMember env (state_Round r) (state_Step r + 1)
             \<and> (\<exists>msg. ?m = Inr (Inr msg)))"
      using False by blast
    then show ?thesis using same by simp
  qed
qed

lemma hash_11_nonzero: "hash_11 \<noteq> zeroHash"
  by (simp add: hash_11_def zeroHash_def)

theorem agreement_published_iff_witness:
  "reducer_begin demo_env reducer_0 batch_1 batch_2 = Inr reducer_0_done
   \<and> \<not> stale reducer_0
   \<and> extractHash demo_env (fetch batch_1) = Inr hash_11
   \<and> extractHash demo_env (fetch batch_2) = Inr hash_11
   \<and> agreements reducer_0_done
       = agreements reducer_0 @ [(Gossip, Framed AgreementTopic [3, 0x5c, 0xed, 0x5b])]
   \<and> hash_11 \<noteq> zeroHash
   \<and> AmMember demo_env (state_Round reducer_0) (state_Step reducer_0 + 1)
   \<and> (\<exists>msg. agreementMessage demo_env (IncrementStep reducer_0)
                (slice_append (fetch batch_1) (fetch batch_2)) hash_11 = Inr (Inr msg))"
proof -
  have run: "reducer_begin demo_env reducer_0 batch_1 batch_2 = Inr reducer_0_done"
    by code_simp
  have live: "\<not> stale reducer_0" by (simp add: reducer_0_def)
  have h1: "extractHash demo_env (fetch batch_1) = Inr hash_11"
    by (simp add: extractHash_def batch_1_def vote_def demo_env_def)
  have h2: "extractHash demo_env (fetch batch_2) = Inr hash_11"
    by (simp add: extractHash_def batch_2_def vote_def demo_env_def)
  have pub: "agreements reducer_0_done
      = agreements reducer_0 @ [(Gossip, Framed AgreementTopic [3, 0x5c, 0xed, 0x5b])]"
    by (simp add: agreements_def reducer_0_done_def reducer_0_def isAgreement_def)
  then have "\<exists>msg. agreements reducer_0_done
      = agreements reducer_0 @ [(Gossip, Framed AgreementTopic msg)]"
    by blast
  with agreement_published_iff [OF run live h1 h2]
  have "hash_11 \<noteq> zeroHash
      \<and> AmMember demo_env (state_Round reducer_0) (state_Step reducer_0 + 1)
      \<and> (\<exists>msg. agreementMessage demo_env (IncrementStep reducer_0)
                (slice_append (fetch batch_1) (fetch batch_2)) hash_11 = Inr (Inr msg))"
    by blast
  with run live h1 h2 pub show ?thesis by blast
qed

text \<open>
  The claim as the spec words it leaves out the last condition. With an environment in
  which \<open>StepVotes.Add\<close> returns an error, both steps give the hash \<open>0x11..11\<close>, the
  node is in the committee and the reducer is not stale, and \<open>begin\<close> returns having
  published no agreement: \<open>Aggregate\<close> returned the error and \<open>sendAgreement\<close> logged it.
\<close>

theorem agreement_published_counterexample:
  "extractHash demo_env_add_fails (fetch batch_1) = Inr hash_11
   \<and> extractHash demo_env_add_fails (fetch batch_2) = Inr hash_11
   \<and> hash_11 \<noteq> zeroHash
   \<and> \<not> stale reducer_0
   \<and> inCommittee demo_env_add_fails (IncrementStep reducer_0)
   \<and> (case reducer_begin demo_env_add_fails reducer_0 batch_1 batch_2 of
         Inl p \<Rightarrow> False
       | Inr r' \<Rightarrow> agreements r' = [] \<and> length (published r') = 2)"
proof -
  have h1: "extractHash demo_env_add_fails (fetch batch_1) = Inr hash_11"
    by (simp add: extractHash_def batch_1_def vote_def demo_env_add_fails_def demo_env_def)
  have h2: "extractHash demo_env_add_fails (fetch batch_2) = Inr hash_11"
    by (simp add: extractHash_def batch_2_def vote_def demo_env_add_fails_def demo_env_def)
  have live: "\<not> stale reducer_0" by (simp add: reducer_0_def)
  have mem: "inCommittee demo_env_add_fails (IncrementStep reducer_0)"
    by (simp add: inCommittee_def demo_env_add_fails_def demo_env_def)
  have run: "(case reducer_begin demo_env_add_fails reducer_0 batch_1 batch_2 of
         Inl p \<Rightarrow> False
       | Inr r' \<Rightarrow> agreements r' = [] \<and> length (published r') = 2)"
    by code_simp
  from h1 h2 hash_11_nonzero live mem run show ?thesis by blast
qed

section \<open>The reducer after \<open>end\<close>\<close>

lemma begin_first_stale:
  "stale r \<Longrightarrow> begin_first env r f = Inr (h, r') \<Longrightarrow> r' = r"
  by (auto simp: begin_first_def Let_def split: sum.splits)

lemma begin_second_stale:
  "stale r \<Longrightarrow> begin_second env r evs h f = Inr r' \<Longrightarrow> r' = r"
  by (auto simp: begin_second_def Let_def)

lemma begin_step_stale:
  assumes "stale r"
  shows "fst (begin_step env r pc f) = r"
proof (cases pc)
  case AtFirstFetch
  then show ?thesis using assms
    by (auto split: sum.splits dest: begin_first_stale)
next
  case (AtSecondFetch evs h)
  then show ?thesis using assms
    by (auto split: sum.splits dest: begin_second_stale)
qed simp_all

lemma end_idem: "stale r \<Longrightarrow> reducer_end r = r"
  by (simp add: reducer_end_def)

lemma reducer_step_stale:
  assumes "stale r" and "\<not> isStartReduction a"
  shows "fst (reducer_step env (r, runs) a) = r"
proof (cases a)
  case EndCalled
  then show ?thesis using assms by (simp add: reducer_step_def end_idem)
next
  case (StartReductionCalled hash)
  then show ?thesis using assms by simp
next
  case (FetchReturns i f)
  obtain r' pc' where s: "begin_step env r (runs ! i) f = (r', pc')"
    by (cases "begin_step env r (runs ! i) f")
  with begin_step_stale [OF assms(1), of env "runs ! i" f] have "r' = r" by simp
  with s FetchReturns show ?thesis by (simp add: reducer_step_def)
qed

text \<open>
  As long as \<open>startReduction\<close> is not called again, the stale check of \<open>begin\<close> does
  its work: after \<open>end\<close>, whatever the runs in flight meet (quorum batches, timeouts,
  stop signals, further calls of \<open>end\<close>), the reducer stays as \<open>end\<close> left it, so
  nothing is published, no absentees are reported and the step is not moved.
\<close>

lemma reducer_run_stale:
  "stale r \<Longrightarrow> \<not> list_ex isStartReduction acts \<Longrightarrow> fst (reducer_run env (r, runs) acts) = r"
proof (induction acts arbitrary: runs)
  case Nil
  then show ?case by simp
next
  case (Cons a acts)
  from Cons.prems have a: "\<not> isStartReduction a" and rest: "\<not> list_ex isStartReduction acts"
    by simp_all
  obtain r' runs' where s: "reducer_step env (r, runs) a = (r', runs')"
    by (cases "reducer_step env (r, runs) a")
  with reducer_step_stale [OF Cons.prems(1) a, of env runs] have "r' = r" by simp
  with s Cons.IH [OF Cons.prems(1) rest] show ?case by simp
qed

lemma silent_until_restarted:
  "\<not> list_ex isStartReduction acts \<Longrightarrow>
   fst (reducer_run env (reducer_end r, runs) acts) = reducer_end r"
  by (rule reducer_run_stale) (simp_all add: reducer_end_def)

text \<open>
  Claim C5. Once \<open>end\<close> has been called, no run of \<open>begin\<close> that is in flight is to
  publish again. The reducer breaks this when it is started again: \<open>startReduction\<close>
  clears the one \<open>stale\<close> flag that all runs read. A reducer is started (its run waits
  in the first \<open>fetch\<close>) and then ended; the \<open>stop\<close> of the first watch makes that
  \<open>fetch\<close> return \<open>nil\<close>, the \<open>stop\<close> of the second watch finds nobody waiting and is
  dropped, and the run, seeing \<open>stale\<close>, goes on to wait in the second \<open>fetch\<close>. Up
  to here only the vote of \<open>startReduction\<close> was published. Then \<open>startReduction\<close> is
  called again, and the timer of the old run fires: the old run finds the reducer not
  stale, reports absentees for (round 1, step 1), moves the step to 2 and publishes a
  regeneration message, all after \<open>end\<close>.
\<close>

theorem ended_run_publishes_after_restart:
  "reducer_run demo_env (reducer_0, [])
     [StartReductionCalled hash_11, EndCalled, FetchReturns 0 StopSignal]
     = (reducer_0_ended, [AtSecondFetch None zeroHash])
   \<and> reducer_run demo_env (reducer_0_ended, [AtSecondFetch None zeroHash])
       [StartReductionCalled hash_22]
     = (reducer_0_restarted, [AtSecondFetch None zeroHash, AtFirstFetch])
   \<and> reducer_run demo_env (reducer_0_restarted, [AtSecondFetch None zeroHash, AtFirstFetch])
       [FetchReturns 0 TimerFired]
     = (reducer_0_restarted
          \<lparr>state_Step := 2,
           published := published reducer_0_restarted
                        @ [(BlockRegenerationTopic, Plain [1, 0, 0, 0, 0, 0, 0, 0, 2])],
           absentee_reports := [(1, 1)]\<rparr>,
        [Returned, AtFirstFetch])"
  by code_simp

section \<open>The collectors\<close>










section \<open>Events of a later round at the selection collector\<close>

lemma sel_process_later_round_lower_step:
  assumes "ExtractHeader h ev = \<lparr>eh_Round = round, eh_Step = step\<rparr>"
    and "step < CurrentStep s"
  shows "sel_process h s ev = s"
proof -
  have "sel_isObsolete s round step" using assms(2) by (simp add: sel_isObsolete_def)
  then show ?thesis by (simp add: sel_process_def assms(1))
qed

lemma sel_process_later_round_queued:
  assumes "ExtractHeader h ev = \<lparr>eh_Round = round, eh_Step = step\<rparr>"
    and "CurrentRound s < round" and "CurrentStep s \<le> step"
  shows "sel_process h s ev = s\<lparr>sel_queue := PutEvent (sel_queue s) round step ev\<rparr>"
proof -
  have a: "\<not> sel_isObsolete s round step" using assms(2,3)
    by (auto simp: sel_isObsolete_def)
  have b: "sel_isEarly s round step" using assms(2) by (simp add: sel_isEarly_def)
  show ?thesis using a b by (simp add: sel_process_def assms(1))
qed

text \<open>
  Claim C2. The selection collector stands at round 4, step 3, and the verified event
  has round 5, step 1. \<open>isObsolete\<close> holds of it, because its step is below the
  current one, and \<open>process\<close> returns with the collector as it was: the event of the
  later round is not in the queue. The reduction collector's \<open>isEarly\<close> holds of the
  same round and step at round 4, step 3.
\<close>

theorem selection_drops_later_round_event:
  "CurrentRound sel_collector_0 < 5
   \<and> sel_isObsolete sel_collector_0 5 1
   \<and> sel_process demo_handler sel_collector_0 (event_at 5 1 7) = sel_collector_0
   \<and> events_at (sel_queue (sel_process demo_handler sel_collector_0 (event_at 5 1 7))) 5 1 = []
   \<and> isEarly (collector_0\<lparr>ctx_Step := 3\<rparr>) 5 1"
proof -
  have hd: "ExtractHeader demo_handler (event_at 5 1 7) = \<lparr>eh_Round = 5, eh_Step = 1\<rparr>"
    by (simp add: demo_handler_def event_at_def)
  have p: "sel_process demo_handler sel_collector_0 (event_at 5 1 7) = sel_collector_0"
    by (rule sel_process_later_round_lower_step [OF hd]) (simp add: sel_collector_0_def)
  show ?thesis
    unfolding p
    by (simp add: sel_isObsolete_def sel_collector_0_def events_at_def NewEventQueue_def
        isEarly_def collector_0_def)
qed

section \<open>The queue after a round update\<close>

lemma ConsumeUntil_older: "r < round \<Longrightarrow> ConsumeUntil q round r = None"
  by (simp add: ConsumeUntil_def)

lemma ConsumeUntil_kept: "\<not> r < round \<Longrightarrow> ConsumeUntil q round r = q r"
  by (simp add: ConsumeUntil_def)

lemma UpdateRound_queue:
  "sel_queue (UpdateRound s round) = ConsumeUntil (sel_queue s) round"
  by (simp add: UpdateRound_def Let_def stopSelection_def split: option.splits)

lemma UpdateRound_no_older_round:
  "r < round \<Longrightarrow> sel_queue (UpdateRound s round) r = None"
  by (simp add: UpdateRound_queue ConsumeUntil_older)

lemma updateRound_queue:
  "queue (updateRound c round) = queue_Clear (queue c) round"
  by (simp add: updateRound_def Let_def split: option.splits)

lemma updateRound_keeps_older_round:
  "r \<noteq> round \<Longrightarrow> queue (updateRound c round) r = queue c r"
  by (simp add: updateRound_queue queue_Clear_def)

text \<open>
  Claim C3. The reduction collector stands at round 4, step 1. It collects a verified
  event of round 4, step 2, and one of round 5, step 1; both are early and are queued.
  After \<open>updateRound\<close> to round 5 the queue still holds the event of round 4, and the
  event queued for round 5 is gone: the handler called \<open>Clear\<close> of the new round. The
  selection collector's \<open>UpdateRound\<close> on the same queue consumes until round 5: it
  drops the entry of round 4 and keeps the one of round 5.
\<close>

theorem reduction_updateRound_keeps_older_round:
  "events_at (queue collector_queued) 4 2 = [event_at 4 2 7]
   \<and> events_at (queue collector_queued) 5 1 = [event_at 5 1 8]
   \<and> events_at (queue (updateRound collector_queued 5)) 4 2 = [event_at 4 2 7]
   \<and> events_at (queue (updateRound collector_queued 5)) 5 1 = []
   \<and> events_at (sel_queue (UpdateRound (sel_collector_0\<lparr>sel_queue := queue collector_queued\<rparr>) 5)) 4 2 = []
   \<and> events_at (sel_queue (UpdateRound (sel_collector_0\<lparr>sel_queue := queue collector_queued\<rparr>) 5)) 5 1
       = [event_at 5 1 8]"
proof -
  have q: "queue collector_queued
      = [4 \<mapsto> [2 \<mapsto> [event_at 4 2 7]], 5 \<mapsto> [1 \<mapsto> [event_at 5 1 8]]]"
    by (simp add: collector_queued_def Collect_def demo_handler_def event_at_def isRelevant_def
        isEarly_def collector_0_def PutEvent_def events_at_def NewEventQueue_def Let_def)
  show ?thesis
    by (simp add: updateRound_queue UpdateRound_queue q events_at_def queue_Clear_def
        ConsumeUntil_def)
qed


section \<open>Accepting a block\<close>

lemma addProvisioner_tip:
  "prevBlock (fst (addProvisioner c tx h)) = prevBlock c
   \<and> db (fst (addProvisioner c tx h)) = db c"
  by (simp add: addProvisioner_def bus_send_def Let_def split: sum.splits)

lemma addBidder_tip:
  "prevBlock (addBidder env c tx) = prevBlock c \<and> db (addBidder env c tx) = db c"
  by (simp add: addBidder_def propagateBidList_def bus_send_def Let_def)

lemma addConsensusNodes_tip:
  "prevBlock (addConsensusNodes env c txs h) = prevBlock c
   \<and> db (addConsensusNodes env c txs h) = db c"
  by (induction env c txs h rule: addConsensusNodes.induct)
     (simp_all add: addProvisioner_tip addBidder_tip)

lemma AcceptBlock_store_fails:
  assumes "CheckBlock env (db c) (prevBlock c) blk = None"
    and "StoreBlock env (db c) blk = Inl err"
  shows "AcceptBlock env c blk =
           Inr (addConsensusNodes env c (Txs blk) (Height (blk_Header blk) + 1), Some err)"
  using assms by (simp add: AcceptBlock_def Let_def addConsensusNodes_tip)

lemma AcceptBlock_cleanup_fails:
  assumes "CheckBlock env (db c) (prevBlock c) blk = None"
    and "StoreBlock env (db c) blk = Inr db1"
    and "EncodeBlock env blk = Inr buf"
    and "EncodeInv env (Hash (blk_Header blk)) = Inr invBuf"
    and "chain_AddTopic env invBuf InvTopic = Inr withTopic"
    and "DeleteCandidateBlocks env db1 (Height (blk_Header blk)) = Inl err"
  shows "AcceptBlock env c blk =
           Inr (bus_send (bus_send
                  ((addConsensusNodes env c (Txs blk) (Height (blk_Header blk) + 1))
                     \<lparr>db := db1, prevBlock := blk\<rparr>)
                  AcceptedBlock buf) GossipStream withTopic, None)"
  using assms
  by (simp add: AcceptBlock_def Let_def addConsensusNodes_tip advertiseBlock_def bus_send_def)

text \<open>
  Claim C6. For a block that passes verification: when the database transaction that
  stores the block fails, \<open>AcceptBlock\<close> returns that error, and the tip \<open>prevBlock\<close> and
  the database are as before the call; when the store, the encoding of the block and
  the advertisement succeed and only the deletion of the candidate blocks fails,
  \<open>AcceptBlock\<close> returns \<open>nil\<close> and the tip is the new block, stored in the database.
\<close>

theorem AcceptBlock_store_error_and_cleanup_error:
  "(CheckBlock env (db c) (prevBlock c) blk = None \<and> StoreBlock env (db c) blk = Inl err
      \<longrightarrow> (\<exists>c'. AcceptBlock env c blk = Inr (c', Some err)
                \<and> prevBlock c' = prevBlock c \<and> db c' = db c))
   \<and> (CheckBlock env (db c) (prevBlock c) blk = None \<and> StoreBlock env (db c) blk = Inr db1
       \<and> EncodeBlock env blk = Inr buf \<and> EncodeInv env (Hash (blk_Header blk)) = Inr invBuf
       \<and> chain_AddTopic env invBuf InvTopic = Inr withTopic
       \<and> DeleteCandidateBlocks env db1 (Height (blk_Header blk)) = Inl err2
      \<longrightarrow> (\<exists>c'. AcceptBlock env c blk = Inr (c', None)
                \<and> prevBlock c' = blk \<and> db c' = db1))"
proof (intro conjI impI)
  assume a: "CheckBlock env (db c) (prevBlock c) blk = None \<and> StoreBlock env (db c) blk = Inl err"
  show "\<exists>c'. AcceptBlock env c blk = Inr (c', Some err)
                \<and> prevBlock c' = prevBlock c \<and> db c' = db c"
  proof -
    from a have "AcceptBlock env c blk =
           Inr (addConsensusNodes env c (Txs blk) (Height (blk_Header blk) + 1), Some err)"
      using AcceptBlock_store_fails [of env c blk err] by blast
    then show ?thesis by (simp add: addConsensusNodes_tip)
  qed
next
  assume a: "CheckBlock env (db c) (prevBlock c) blk = None \<and> StoreBlock env (db c) blk = Inr db1
       \<and> EncodeBlock env blk = Inr buf \<and> EncodeInv env (Hash (blk_Header blk)) = Inr invBuf
       \<and> chain_AddTopic env invBuf InvTopic = Inr withTopic
       \<and> DeleteCandidateBlocks env db1 (Height (blk_Header blk)) = Inl err2"
  then have "AcceptBlock env c blk =
           Inr (bus_send (bus_send
                  ((addConsensusNodes env c (Txs blk) (Height (blk_Header blk) + 1))
                     \<lparr>db := db1, prevBlock := blk\<rparr>)
                  AcceptedBlock buf) GossipStream withTopic, None)"
    using AcceptBlock_cleanup_fails [of env c blk db1 buf invBuf withTopic err2] by blast
  then show "\<exists>c'. AcceptBlock env c blk = Inr (c', None) \<and> prevBlock c' = blk \<and> db c' = db1"
    by (simp add: bus_send_def)
qed

theorem AcceptBlock_store_error_and_cleanup_error_witness:
  "CheckBlock demo_chain_env (db chain_0) (prevBlock chain_0) (block_at 99) = None
   \<and> StoreBlock demo_chain_env (db chain_0) (block_at 99) = Inl ''no space left on device''
   \<and> (\<exists>c'. AcceptBlock demo_chain_env chain_0 (block_at 99)
              = Inr (c', Some ''no space left on device'')
           \<and> prevBlock c' = block_at 1 \<and> db c' = [block_at 1])
   \<and> StoreBlock demo_chain_env (db chain_0) (block_at 2) = Inr [block_at 1, block_at 2]
   \<and> DeleteCandidateBlocks demo_chain_env [block_at 1, block_at 2] 2 = Inl ''transaction failed''
   \<and> (\<exists>c'. AcceptBlock demo_chain_env chain_0 (block_at 2) = Inr (c', None)
           \<and> prevBlock c' = block_at 2 \<and> db c' = [block_at 1, block_at 2])"
proof -
  have 1: "CheckBlock demo_chain_env (db chain_0) (prevBlock chain_0) (block_at 99) = None"
    "CheckBlock demo_chain_env (db chain_0) (prevBlock chain_0) (block_at 2) = None"
    by (simp_all add: demo_chain_env_def)
  have 2: "StoreBlock demo_chain_env (db chain_0) (block_at 99) = Inl ''no space left on device''"
    by (simp add: demo_chain_env_def block_at_def)
  have 3: "StoreBlock demo_chain_env (db chain_0) (block_at 2) = Inr [block_at 1, block_at 2]"
    by (simp add: demo_chain_env_def block_at_def chain_0_def)
  have 4: "EncodeBlock demo_chain_env (block_at 2) = Inr [2]"
    "EncodeInv demo_chain_env (Hash (blk_Header (block_at 2))) = Inr [2]"
    "chain_AddTopic demo_chain_env [2] InvTopic = Inr [0x0b, 2]"
    "DeleteCandidateBlocks demo_chain_env [block_at 1, block_at 2] (Height (blk_Header (block_at 2)))
       = Inl ''transaction failed''"
    by (simp_all add: demo_chain_env_def block_at_def)
  have 5: "prevBlock chain_0 = block_at 1" "db chain_0 = [block_at 1]"
    "Height (blk_Header (block_at 2)) = 2"
    by (simp_all add: chain_0_def block_at_def)
  show ?thesis
    using AcceptBlock_store_error_and_cleanup_error
        [of demo_chain_env chain_0 "block_at 99" "''no space left on device''"]
      AcceptBlock_store_error_and_cleanup_error
        [of demo_chain_env chain_0 "block_at 2" _ "[block_at 1, block_at 2]" "[2]" "[2]"
           "[0x0b, 2]" "''transaction failed''"]
      1 2 3 4 5
    by simp
qed

section \<open>Validating a candidate\<close>

lemma copy32_id: "length bs = 32 \<Longrightarrow> copy32 bs = bs"
  by (simp add: copy32_def)

lemma checkHash_cases:
  "checkHash env blk =
     (case hashOf env (blk_Header blk) of
        Inl err \<Rightarrow> (blk, Some err)
      | Inr h \<Rightarrow>
          (blk\<lparr>blk_Header := (blk_Header blk)\<lparr>Hash := h\<rparr>\<rparr>,
           if copy32 (Hash (blk_Header blk)) \<noteq> h then Some ''invalid block hash'' else None))"
  by (simp add: checkHash_def SetHash_def Let_def split: sum.splits)

lemma checkRoot_cases:
  "snd (checkRoot env blk) =
     (case rootOf env (Txs blk) of
        Inl err \<Rightarrow> Some err
      | Inr rt \<Rightarrow>
          if copy32 (TxRoot (blk_Header blk)) \<noteq> rt then Some ''invalid merkle root hash''
          else None)"
  by (simp add: checkRoot_def SetRoot_def Let_def split: sum.splits)

lemma Validate_cases:
  assumes "Decode env b = Inr cm"
  shows "Validate env b =
     (case hashOf env (blk_Header (cm_Block cm)) of
        Inl err \<Rightarrow> Some err
      | Inr h \<Rightarrow>
          if copy32 (Hash (blk_Header (cm_Block cm))) \<noteq> h then Some ''invalid block hash''
          else (case rootOf env (Txs (cm_Block cm)) of
                  Inl err \<Rightarrow> Some err
                | Inr rt \<Rightarrow>
                    if copy32 (TxRoot (blk_Header (cm_Block cm))) \<noteq> rt
                    then Some ''invalid merkle root hash''
                    else None))"
  by (simp add: Validate_def assms checkHash_cases checkRoot_cases split: sum.splits)

text \<open>
  Claim C8. Take a buffer that decodes to a candidate whose header carries a hash and a
  transaction root of 32 bytes, as the wire format has them. \<open>Validate\<close> returns
  \<open>nil\<close> exactly when the hash recomputed from the header is the stored hash and the
  Merkle root recomputed over the transactions is the stored root. When the recomputed
  hash differs from the stored one, \<open>Validate\<close> returns the error
  \<open>invalid block hash\<close>; when the hash matches and the recomputed root differs from
  the stored one, it returns \<open>invalid merkle root hash\<close>.
\<close>

theorem Validate_nil_iff_hash_and_root:
  assumes "Decode env b = Inr cm"
    and "length (Hash (blk_Header (cm_Block cm))) = 32"
    and "length (TxRoot (blk_Header (cm_Block cm))) = 32"
  shows "(Validate env b = None
            \<longleftrightarrow> hashOf env (blk_Header (cm_Block cm)) = Inr (Hash (blk_Header (cm_Block cm)))
                \<and> rootOf env (Txs (cm_Block cm)) = Inr (TxRoot (blk_Header (cm_Block cm))))
         \<and> (\<forall>h. hashOf env (blk_Header (cm_Block cm)) = Inr h
                  \<and> h \<noteq> Hash (blk_Header (cm_Block cm))
              \<longrightarrow> Validate env b = Some ''invalid block hash'')
         \<and> (\<forall>rt. hashOf env (blk_Header (cm_Block cm)) = Inr (Hash (blk_Header (cm_Block cm)))
                   \<and> rootOf env (Txs (cm_Block cm)) = Inr rt
                   \<and> rt \<noteq> TxRoot (blk_Header (cm_Block cm))
              \<longrightarrow> Validate env b = Some ''invalid merkle root hash'')"
  unfolding Validate_cases [OF assms(1)] copy32_id [OF assms(2)] copy32_id [OF assms(3)]
  by (auto split: sum.splits)

lemma Decode_demo:
  "Decode demo_validator_env (candidate_buffer h r t) = Inr (candidate_of h r t)"
  by (simp add: demo_validator_env_def candidate_buffer_def candidate_of_def)

lemma hashOf_demo:
  "hashOf demo_validator_env (blk_Header (cm_Block (candidate_of h r t))) = Inr (replicate 32 1)"
  by (simp add: demo_validator_env_def candidate_of_def)

lemma rootOf_demo:
  "rootOf demo_validator_env (Txs (cm_Block (candidate_of h r t))) = Inr (replicate 32 t)"
  by (simp add: demo_validator_env_def candidate_of_def tx_byte_def)

theorem Validate_nil_iff_hash_and_root_witness:
  "Decode demo_validator_env (candidate_buffer 1 7 7) = Inr (candidate_of 1 7 7)
   \<and> length (Hash (blk_Header (cm_Block (candidate_of 1 7 7)))) = 32
   \<and> length (TxRoot (blk_Header (cm_Block (candidate_of 1 7 7)))) = 32
   \<and> hashOf demo_validator_env (blk_Header (cm_Block (candidate_of 1 7 7)))
       = Inr (Hash (blk_Header (cm_Block (candidate_of 1 7 7))))
   \<and> rootOf demo_validator_env (Txs (cm_Block (candidate_of 1 7 7)))
       = Inr (TxRoot (blk_Header (cm_Block (candidate_of 1 7 7))))
   \<and> Validate demo_validator_env (candidate_buffer 1 7 7) = None
   \<and> Validate demo_validator_env (candidate_buffer 1 7 8) = Some ''invalid merkle root hash''
   \<and> Validate demo_validator_env (candidate_buffer 2 7 7) = Some ''invalid block hash''"
proof -
  have len: "length (Hash (blk_Header (cm_Block (candidate_of h r t)))) = 32"
    "length (TxRoot (blk_Header (cm_Block (candidate_of h r t)))) = 32" for h r t
    by (simp_all add: candidate_of_def)
  have f: "Hash (blk_Header (cm_Block (candidate_of h r t))) = replicate 32 h"
    "TxRoot (blk_Header (cm_Block (candidate_of h r t))) = replicate 32 r" for h r t
    by (simp_all add: candidate_of_def)
  show ?thesis
    using Validate_nil_iff_hash_and_root [OF Decode_demo len, of 1 7 7]
      Validate_nil_iff_hash_and_root [OF Decode_demo len, of 1 7 8]
      Validate_nil_iff_hash_and_root [OF Decode_demo len, of 2 7 7]
      Decode_demo [of 1 7 7] len [of 1 7 7]
    by (simp add: f hashOf_demo rootOf_demo)
qed

section \<open>The header hashes kept in headers-first mode\<close>

lemma foldl_append_hashes:
  "foldl (\<lambda>hashes header. hashes @ [Hash header]) acc msg = acc @ map Hash msg"
  by (induction msg arbitrary: acc) simp_all

lemma HeadersFirstMode_headers:
  assumes "ValidateHeaders env msg = None" and "AddHeaders env msg = None"
    and "msg \<noteq> []" and "length msg \<noteq> 2000"
  shows "HeadersFirstMode env s p msg =
           Inr (s\<lparr>headers := headers s @ replicate (length msg) [] @ map Hash msg\<rparr>,
                RequestHeaders env (Hash (last msg)))"
  using assms by (simp add: HeadersFirstMode_def Let_def foldl_append_hashes)

text \<open>
  Claim C9. A headers message with one header, of hash \<open>0x11..11\<close>, is validated and
  stored, and the sync manager's \<open>headers\<close> slice was empty. After \<open>HeadersFirstMode\<close>
  the slice has two entries, not one: an empty one first, then the hash.
\<close>

theorem HeadersFirstMode_leading_empty_entry:
  "ValidateHeaders sync_env_ok [header_with_hash hash_11] = None
   \<and> AddHeaders sync_env_ok [header_with_hash hash_11] = None
   \<and> HeadersFirstMode sync_env_ok syncmgr_0 1 [header_with_hash hash_11]
       = Inr (syncmgr_0\<lparr>headers := [[], hash_11]\<rparr>, None)
   \<and> length (headers (syncmgr_0\<lparr>headers := [[], hash_11]\<rparr>)) = 2"
proof -
  have v: "ValidateHeaders sync_env_ok [header_with_hash hash_11] = None"
    "AddHeaders sync_env_ok [header_with_hash hash_11] = None"
    by (simp_all add: sync_env_ok_def)
  have "HeadersFirstMode sync_env_ok syncmgr_0 1 [header_with_hash hash_11]
       = Inr (syncmgr_0\<lparr>headers := [[], hash_11]\<rparr>, None)"
    by (subst HeadersFirstMode_headers [OF v])
       (simp_all add: syncmgr_0_def header_with_hash_def sync_env_ok_def)
  with v show ?thesis by simp
qed

end
